theory Spec2Isabelle
  imports Main "HOL-Library.AList"
begin

section \<open>Errors and values\<close>

text \<open>
  The exceptions the engine in \<^verbatim>\<open>amaxa.py\<close> raises, as values.  \<open>Exception\<close> carries the
  arguments the source passes to the plain \<^verbatim>\<open>Exception\<close> constructor (message template
  first).
\<close>

datatype error =
    ValueError
  | TypeError
  | KeyError
  | IndexError
  | NotImplementedError
  | Exception "string list"

text \<open>An instance of the class \<^verbatim>\<open>SalesforceId\<close>: its only attribute is \<^verbatim>\<open>id\<close>.\<close>

datatype salesforce_id = SalesforceId (sid: string)

text \<open>
  The Python values that reach \<^verbatim>\<open>SalesforceId.__init__\<close> and \<^verbatim>\<open>SalesforceId.__eq__\<close>:
  a \<^verbatim>\<open>str\<close>, a \<^verbatim>\<open>SalesforceId\<close>, or a value of another type (\<^verbatim>\<open>None\<close>, an \<^verbatim>\<open>int\<close>,
  a \<^verbatim>\<open>bool\<close>), none of which has a length.
\<close>

datatype pyval = PStr string | PId salesforce_id | PNone | PInt int | PBool bool

section \<open>SalesforceId\<close>

definition is_upper :: "char \<Rightarrow> bool" where
  "is_upper character \<longleftrightarrow>
     (of_char (CHR ''A'') :: nat) \<le> of_char character \<and>
     (of_char character :: nat) \<le> of_char (CHR ''Z'')"

definition suffix_alphabet :: string where
  "suffix_alphabet = ''ABCDEFGHIJKLMNOPQRSTUVWXYZ012345''"

text \<open>The inner loop over \<^verbatim>\<open>j\<close>: \<^verbatim>\<open>baseTwo += 1 << j\<close> for every upper-case character
  of the \<open>i\<close>-th group of five.\<close>

definition baseTwo :: "string \<Rightarrow> nat \<Rightarrow> nat" where
  "baseTwo idstr i =
     sum_list (map (\<lambda>j. if is_upper (idstr ! (i * 5 + j)) then 2 ^ j else 0) [0..<5])"

definition id_suffix :: "string \<Rightarrow> string" where
  "id_suffix idstr = map (\<lambda>i. suffix_alphabet ! baseTwo idstr i) [0..<3]"

fun SalesforceId_init :: "pyval \<Rightarrow> error + salesforce_id" where
  "SalesforceId_init (PId other) = Inr (SalesforceId (sid other))"
| "SalesforceId_init (PStr idstr) =
     (if length idstr = 15 then Inr (SalesforceId (idstr @ id_suffix idstr))
      else if length idstr = 18 then Inr (SalesforceId idstr)
      else Inl ValueError)"
| "SalesforceId_init _ = Inl TypeError"

fun SalesforceId_eq :: "salesforce_id \<Rightarrow> pyval \<Rightarrow> error + bool" where
  "SalesforceId_eq self (PId other) = Inr (sid self = sid other)"
| "SalesforceId_eq self (PStr other) =
     (case SalesforceId_init (PStr other) of
        Inl e \<Rightarrow> Inl e
      | Inr oid \<Rightarrow> Inr (sid self = sid oid))"
| "SalesforceId_eq self _ = Inr False"


definition SalesforceId_str :: "salesforce_id \<Rightarrow> string" where
  "SalesforceId_str self = sid self"

lemma length_id_suffix: "length (id_suffix idstr) = 3"
  by (simp add: id_suffix_def)

section \<open>Comprehensions that may raise\<close>

text \<open>
  A list comprehension whose element expression or condition raises stops at the first
  element that raises.
\<close>

fun map_err :: "('a \<Rightarrow> error + 'b) \<Rightarrow> 'a list \<Rightarrow> error + 'b list" where
  "map_err f [] = Inr []"
| "map_err f (x # xs) =
     (case f x of
        Inl e \<Rightarrow> Inl e
      | Inr y \<Rightarrow> (case map_err f xs of Inl e \<Rightarrow> Inl e | Inr ys \<Rightarrow> Inr (y # ys)))"

fun filter_err :: "('a \<Rightarrow> error + bool) \<Rightarrow> 'a list \<Rightarrow> error + 'a list" where
  "filter_err p [] = Inr []"
| "filter_err p (x # xs) =
     (case p x of
        Inl e \<Rightarrow> Inl e
      | Inr b \<Rightarrow> (case filter_err p xs of
                    Inl e \<Rightarrow> Inl e
                  | Inr ys \<Rightarrow> Inr (if b then x # ys else ys)))"

text \<open>\<^verbatim>\<open>list.index\<close>: the position of the first occurrence, ValueError when there is none.\<close>

fun index_of :: "'a list \<Rightarrow> 'a \<Rightarrow> error + nat" where
  "index_of [] x = Inl ValueError"
| "index_of (y # ys) x =
     (if y = x then Inr 0
      else (case index_of ys x of Inl e \<Rightarrow> Inl e | Inr i \<Rightarrow> Inr (Suc i)))"

section \<open>Schema catalog and lookup classification\<close>

text \<open>
  One entry of a describe result: the keys \<^verbatim>\<open>type\<close>, \<^verbatim>\<open>referenceTo\<close> and \<^verbatim>\<open>soapType\<close>
  of a field.  \<^verbatim>\<open>Operation.get_field_map\<close> returns a dictionary from field name to such an
  entry; the describe call behind it belongs to the connection, so the field map is a
  parameter.
\<close>

record field_descriptor =
  ftype :: string
  referenceTo :: "string list"
  soapType :: string

type_synonym field_map = "string \<rightharpoonup> field_descriptor"

text \<open>
  The four attributes \<^verbatim>\<open>Step.scan_fields\<close> sets.  A Python set is a duplicate-free list
  here (its iteration order is not specified by Python; the model keeps the order of the
  field scope).
\<close>

record lookups =
  all_lookups :: "string list"
  self_lookups :: "string list"
  descendent_lookups :: "string list"
  dependent_lookups :: "string list"

definition is_lookup :: "field_map \<Rightarrow> string list \<Rightarrow> string \<Rightarrow> error + bool" where
  "is_lookup fm sobjects f =
     (case fm f of
        None \<Rightarrow> Inl KeyError
      | Some d \<Rightarrow> Inr (ftype d = ''reference'' \<and> list_ex (\<lambda>s. s \<in> set sobjects) (referenceTo d)))"

definition is_self_lookup :: "field_map \<Rightarrow> string \<Rightarrow> string \<Rightarrow> error + bool" where
  "is_self_lookup fm sobjectname f =
     (case fm f of
        None \<Rightarrow> Inl KeyError
      | Some d \<Rightarrow> Inr (sobjectname \<in> set (referenceTo d)))"

text \<open>
  \<^verbatim>\<open>sobjects.index(refTo) < sobjects.index(self.sobjectname)\<close> (with \<open>cmp\<close> the
  comparison), the left operand first.
\<close>

definition compare_index ::
  "(nat \<Rightarrow> nat \<Rightarrow> bool) \<Rightarrow> string list \<Rightarrow> string \<Rightarrow> string \<Rightarrow> error + bool" where
  "compare_index cmp sobjects sobjectname refTo =
     (case index_of sobjects refTo of
        Inl e \<Rightarrow> Inl e
      | Inr i \<Rightarrow> (case index_of sobjects sobjectname of
                    Inl e \<Rightarrow> Inl e
                  | Inr j \<Rightarrow> Inr (cmp i j)))"

definition any_target ::
  "(nat \<Rightarrow> nat \<Rightarrow> bool) \<Rightarrow> field_map \<Rightarrow> string list \<Rightarrow> string \<Rightarrow> string \<Rightarrow> error + bool" where
  "any_target cmp fm sobjects sobjectname f =
     (case fm f of
        None \<Rightarrow> Inl KeyError
      | Some d \<Rightarrow>
          (case map_err (compare_index cmp sobjects sobjectname)
                  (filter (\<lambda>refTo. refTo \<in> set sobjects) (referenceTo d)) of
             Inl e \<Rightarrow> Inl e
           | Inr bs \<Rightarrow> Inr (list_ex (\<lambda>b. b) bs)))"

definition scan_fields ::
  "field_map \<Rightarrow> string list \<Rightarrow> string \<Rightarrow> string list \<Rightarrow> error + lookups" where
  "scan_fields fm sobjects sobjectname field_scope =
     (case filter_err (is_lookup fm sobjects) field_scope of
        Inl e \<Rightarrow> Inl e
      | Inr al \<Rightarrow>
     (case filter_err (is_self_lookup fm sobjectname) (remdups al) of
        Inl e \<Rightarrow> Inl e
      | Inr sl \<Rightarrow>
     (case filter_err (any_target (<) fm sobjects sobjectname) (remdups al) of
        Inl e \<Rightarrow> Inl e
      | Inr desc \<Rightarrow>
     (case filter_err (any_target (>) fm sobjects sobjectname) (remdups al) of
        Inl e \<Rightarrow> Inl e
      | Inr dep \<Rightarrow>
          Inr \<lparr> all_lookups = remdups al, self_lookups = sl,
                descendent_lookups = desc, dependent_lookups = dep \<rparr>))))"

section \<open>Example schema\<close>

text \<open>A Contact step between Account and Case, with one lookup of each kind.\<close>

definition example_contact_fields :: field_map where
  "example_contact_fields =
     [''Name'' \<mapsto> \<lparr>ftype = ''string'', referenceTo = [], soapType = ''xsd:string''\<rparr>,
      ''AccountId'' \<mapsto> \<lparr>ftype = ''reference'', referenceTo = [''Account''], soapType = ''tns:ID''\<rparr>,
      ''ReportsToId'' \<mapsto> \<lparr>ftype = ''reference'', referenceTo = [''Contact''], soapType = ''tns:ID''\<rparr>,
      ''Case__c'' \<mapsto> \<lparr>ftype = ''reference'', referenceTo = [''Case''], soapType = ''tns:ID''\<rparr>,
      ''OwnerId'' \<mapsto> \<lparr>ftype = ''reference'', referenceTo = [''User''], soapType = ''tns:ID''\<rparr>]"

section \<open>Identifier-set queries and their chunks\<close>

text \<open>\<^verbatim>\<open>sep.join(xs)\<close>.\<close>

fun join_with :: "string \<Rightarrow> string list \<Rightarrow> string" where
  "join_with sep [] = []"
| "join_with sep [x] = x"
| "join_with sep (x # y # ys) = x @ sep @ join_with sep (y # ys)"

text \<open>\<^verbatim>\<open>Step.get_field_list\<close>.\<close>

definition get_field_list :: "string list \<Rightarrow> string" where
  "get_field_list field_scope = join_with '', '' field_scope"

text \<open>The single quote character.\<close>

definition quote :: string where
  "quote = [CHR 0x27]"

text \<open>
  The text from \<^verbatim>\<open>WHERE\<close> on of the query
  \<^verbatim>\<open>'SELECT {} FROM {} WHERE {} IN ({})'\<close> and the whole formatted query.
\<close>

definition where_in_clause :: "string \<Rightarrow> string \<Rightarrow> string" where
  "where_in_clause id_field id_list = ''WHERE '' @ id_field @ '' IN ('' @ id_list @ '')''"

definition id_query :: "string \<Rightarrow> string \<Rightarrow> string \<Rightarrow> string \<Rightarrow> string" where
  "id_query field_list sobjectname id_field id_list =
     ''SELECT '' @ field_list @ '' FROM '' @ sobjectname @ '' '' @ where_in_clause id_field id_list"

text \<open>
  \<^verbatim>\<open>max_len = 4000 - len('WHERE {} IN ()'.format(self.get_field_list()))\<close>: the source
  formats the skeleton with the field list.
\<close>

definition max_len :: "string list \<Rightarrow> int" where
  "max_len field_scope =
     4000 - int (length (''WHERE '' @ get_field_list field_scope @ '' IN ()''))"

text \<open>
  The inner \<^verbatim>\<open>while\<close> of \<^verbatim>\<open>perform_id_field_pass\<close>: identifiers are popped and appended
  to \<^verbatim>\<open>id_list\<close> while it is shorter than \<^verbatim>\<open>max_len - 22\<close> and identifiers remain.
  The remaining identifiers are a list in the order \<^verbatim>\<open>set.pop\<close> hands them out (any
  order of the set is such a list).  \<open>taken\<close> records which identifiers the text
  \<open>id_list\<close> holds; the source keeps only the text.
\<close>

fun fill_chunk ::
  "int \<Rightarrow> string \<Rightarrow> salesforce_id list \<Rightarrow> salesforce_id list
     \<Rightarrow> (string \<times> salesforce_id list) \<times> salesforce_id list" where
  "fill_chunk ml id_list taken [] = ((id_list, taken), [])"
| "fill_chunk ml id_list taken (i # ids) =
     (if int (length id_list) < ml - 22
      then fill_chunk ml (id_list @ '', '' @ quote @ SalesforceId_str i @ quote) (taken @ [i]) ids
      else ((id_list, taken), i # ids))"

lemma fill_chunk_rest_length:
  "fill_chunk ml id_list taken ids = (chunk, rest) \<Longrightarrow> length rest \<le> length ids"
  by (induction ids arbitrary: id_list taken) (auto split: if_splits simp: le_SucI)

text \<open>The outer \<^verbatim>\<open>while len(ids) > 0\<close>: one chunk per round.\<close>

function id_chunks :: "int \<Rightarrow> salesforce_id list \<Rightarrow> (string \<times> salesforce_id list) list" where
  "id_chunks ml [] = []"
| "id_chunks ml (i # ids) =
     (case fill_chunk ml (quote @ SalesforceId_str i @ quote) [i] ids of
        (chunk, rest) \<Rightarrow> chunk # id_chunks ml rest)"
  by pat_completeness auto
termination
  by (relation "measure (\<lambda>(ml, ids). length ids)")
    (auto simp: less_Suc_eq_le dest: fill_chunk_rest_length [OF sym])

text \<open>One identifier between quotes, as it stands in \<^verbatim>\<open>id_list\<close>.\<close>

definition quoted :: "salesforce_id \<Rightarrow> string" where
  "quoted i = quote @ SalesforceId_str i @ quote"

section \<open>Records, steps and operations\<close>

text \<open>
  A record of the store or of a file: a dictionary from field name to a string or
  \<^verbatim>\<open>None\<close>, in insertion order.
\<close>

type_synonym row = "(string \<times> string option) list"

text \<open>\<^verbatim>\<open>record[k]\<close>: KeyError when the key is missing.\<close>

definition row_get :: "row \<Rightarrow> string \<Rightarrow> error + string option" where
  "row_get r k = (case map_of r k of None \<Rightarrow> Inl KeyError | Some v \<Rightarrow> Inr v)"

definition to_pyval :: "string option \<Rightarrow> pyval" where
  "to_pyval v = (case v of None \<Rightarrow> PNone | Some s \<Rightarrow> PStr s)"

text \<open>\<^verbatim>\<open>str(v)\<close> of a string or \<^verbatim>\<open>None\<close>, for exception arguments.\<close>

definition py_str :: "string option \<Rightarrow> string" where
  "py_str v = (case v of None \<Rightarrow> ''None'' | Some s \<Rightarrow> s)"

text \<open>
  The constants of \<^verbatim>\<open>ExtractionScope\<close>, and those of \<^verbatim>\<open>SelfLookupBehavior\<close> and
  \<^verbatim>\<open>OutsideLookupBehavior\<close> together: the dictionary \<^verbatim>\<open>lookup_behaviors\<close> of a step
  holds values of both kinds.
\<close>

datatype extraction_scope = ALL_RECORDS | QUERY | SELECTED_RECORDS | DESCENDENTS

datatype lookup_behavior = TRACE_ALL | TRACE_NONE | DROP_FIELD | INCLUDE | RECURSE | ERROR

text \<open>\<^verbatim>\<open>DataMapper\<close>: \<open>field_transforms\<close> gives the empty list for a field without
  transforms.\<close>

record data_mapper =
  field_name_mapping :: "string \<rightharpoonup> string"
  field_transforms :: "string \<Rightarrow> (string option \<Rightarrow> string option) list"

definition transform_key :: "data_mapper \<Rightarrow> string \<Rightarrow> string" where
  "transform_key m k = (case field_name_mapping m k of None \<Rightarrow> k | Some k' \<Rightarrow> k')"

definition transform_value :: "data_mapper \<Rightarrow> string \<Rightarrow> string option \<Rightarrow> string option" where
  "transform_value m k v = foldl (\<lambda>x f. f x) v (field_transforms m k)"

text \<open>The dictionary comprehension of \<^verbatim>\<open>DataMapper.transform_record\<close>: a key that comes
  up twice keeps its first position and its last value.\<close>

definition transform_record :: "data_mapper \<Rightarrow> row \<Rightarrow> row" where
  "transform_record m r =
     fold (\<lambda>(k, v) acc. AList.update (transform_key m k) (transform_value m k v) acc) r []"

text \<open>
  The attributes of a step that both \<^verbatim>\<open>LoadStep\<close> and \<^verbatim>\<open>ExtractionStep\<close> have, and those
  \<^verbatim>\<open>ExtractionStep\<close> adds.
\<close>

record step =
  sobjectname :: string
  field_scope :: "string list"
  outside_lookup_behavior :: lookup_behavior
  lookup_behaviors :: "string \<rightharpoonup> lookup_behavior"

record extraction_step = step +
  scope :: extraction_scope
  where_clause :: "string option"
  self_lookup_behavior :: lookup_behavior

text \<open>
  What the steps read of their \<^verbatim>\<open>Operation\<close>: \<open>sobject_list\<close> is
  \<^verbatim>\<open>get_sobject_list()\<close>, \<open>field_maps\<close> is \<^verbatim>\<open>get_field_map\<close> (the describe results of
  the connection), \<open>mappers\<close> the data mappers.  An \<^verbatim>\<open>ExtractOperation\<close> adds the key
  prefix map built from the global describe and the two query calls of the connection,
  as functions of the query text.
\<close>

record operation =
  sobject_list :: "string list"
  field_maps :: "string \<Rightarrow> field_map"
  mappers :: "string \<rightharpoonup> data_mapper"

record extract_operation = operation +
  key_prefix_map :: "string \<rightharpoonup> string"
  query_all :: "string \<Rightarrow> row list"
  bulk_query :: "string \<Rightarrow> string \<Rightarrow> row list"

text \<open>
  The registries an \<^verbatim>\<open>ExtractOperation\<close> mutates: the required and the extracted
  identifiers of each sObject (Python sets: duplicate-free lists here, a new element at
  the end), and per sObject the rows written to its output file so far.  With them the
  state keeps, in order, the query texts passed to \<^verbatim>\<open>connection.query_all\<close> so far: the
  source keeps no such list, the model does to say what a pass sends to the store.
\<close>

record extract_state =
  required_ids :: "string \<rightharpoonup> salesforce_id list"
  extracted_ids :: "string \<rightharpoonup> salesforce_id list"
  output_files :: "string \<rightharpoonup> row list"
  query_all_calls :: "string list"

text \<open>A \<^verbatim>\<open>for\<close> loop whose body mutates the state and may raise: the exception ends the
  loop and leaves the state as it is then.\<close>

fun for_each :: "('a \<Rightarrow> 's \<Rightarrow> error option \<times> 's) \<Rightarrow> 'a list \<Rightarrow> 's \<Rightarrow> error option \<times> 's" where
  "for_each body [] st = (None, st)"
| "for_each body (x # xs) st =
     (case body x st of
        (Some e, st') \<Rightarrow> (Some e, st')
      | (None, st') \<Rightarrow> for_each body xs st')"

fun fold_err :: "('a \<Rightarrow> 'b \<Rightarrow> error + 'b) \<Rightarrow> 'a list \<Rightarrow> 'b \<Rightarrow> error + 'b" where
  "fold_err body [] acc = Inr acc"
| "fold_err body (x # xs) acc =
     (case body x acc of Inl e \<Rightarrow> Inl e | Inr acc' \<Rightarrow> fold_err body xs acc')"

section \<open>ExtractOperation\<close>

definition get_extracted_ids :: "extract_state \<Rightarrow> string \<Rightarrow> salesforce_id list" where
  "get_extracted_ids st s = (case extracted_ids st s of None \<Rightarrow> [] | Some ids \<Rightarrow> ids)"

definition get_dependencies :: "extract_state \<Rightarrow> string \<Rightarrow> salesforce_id list" where
  "get_dependencies st s = (case required_ids st s of None \<Rightarrow> [] | Some ids \<Rightarrow> ids)"

definition add_dependency :: "string \<Rightarrow> salesforce_id \<Rightarrow> extract_state \<Rightarrow> extract_state" where
  "add_dependency s i st =
     (let st1 = (if required_ids st s = None
                 then st\<lparr>required_ids := (required_ids st)(s \<mapsto> [])\<rparr> else st)
      in if i \<notin> set (get_extracted_ids st1 s)
         then st1\<lparr>required_ids := (required_ids st1)(s \<mapsto> List.insert i (get_dependencies st1 s))\<rparr>
         else st1)"

text \<open>\<^verbatim>\<open>ids |= other\<close>.\<close>

definition set_union :: "'a list \<Rightarrow> 'a list \<Rightarrow> 'a list" where
  "set_union ids other = ids @ filter (\<lambda>x. x \<notin> set ids) other"

definition get_sobject_ids_for_reference ::
  "extract_operation \<Rightarrow> extract_state \<Rightarrow> string \<Rightarrow> string \<Rightarrow> error + salesforce_id list" where
  "get_sobject_ids_for_reference ctx st s field =
     (case field_maps ctx s field of
        None \<Rightarrow> Inl KeyError
      | Some d \<Rightarrow>
          Inr (fold (\<lambda>name ids. case extracted_ids st name of
                                   None \<Rightarrow> ids
                                 | Some e \<Rightarrow> set_union ids e)
                 (referenceTo d) []))"

text \<open>\<^verbatim>\<open>Operation.get_sobject_name_for_id\<close>: \<^verbatim>\<open>key_prefix_map[id[:3]]\<close>; slicing
  \<^verbatim>\<open>None\<close> is a TypeError.\<close>

definition get_sobject_name_for_id :: "extract_operation \<Rightarrow> string option \<Rightarrow> error + string" where
  "get_sobject_name_for_id ctx v =
     (case v of
        None \<Rightarrow> Inl TypeError
      | Some i \<Rightarrow> (case key_prefix_map ctx (take 3 i) of
                     None \<Rightarrow> Inl KeyError
                   | Some name \<Rightarrow> Inr name))"

text \<open>
  \<^verbatim>\<open>ExtractOperation.store_result\<close>.  The identifier is built (for the debug line) before
  anything but the creation of the sObject's extracted set; the set gets the identifier
  before the output file is looked up.
\<close>

definition ExtractOperation_store_result ::
  "extract_operation \<Rightarrow> string \<Rightarrow> row \<Rightarrow> extract_state \<Rightarrow> error option \<times> extract_state" where
  "ExtractOperation_store_result ctx s record st =
     (let st1 = (if extracted_ids st s = None
                 then st\<lparr>extracted_ids := (extracted_ids st)(s \<mapsto> [])\<rparr> else st)
      in case row_get record ''Id'' of
           Inl e \<Rightarrow> (Some e, st1)
         | Inr v \<Rightarrow>
      (case SalesforceId_init (to_pyval v) of
           Inl e \<Rightarrow> (Some e, st1)
         | Inr i \<Rightarrow>
      (case (if i \<notin> set (get_extracted_ids st1 s)
             then (let st2 = st1\<lparr>extracted_ids :=
                                 (extracted_ids st1)(s \<mapsto> get_extracted_ids st1 s @ [i])\<rparr>
                   in case output_files st2 s of
                        None \<Rightarrow> (Some KeyError, st2)
                      | Some rows \<Rightarrow>
                          (None, st2\<lparr>output_files := (output_files st2)
                             (s \<mapsto> rows @ [case mappers ctx s of
                                                Some m \<Rightarrow> transform_record m record
                                              | None \<Rightarrow> record])\<rparr>))
             else (None, st1)) of
           (Some e, st3) \<Rightarrow> (Some e, st3)
         | (None, st3) \<Rightarrow>
             (None, case required_ids st3 s of
                      None \<Rightarrow> st3
                    | Some req \<Rightarrow>
                        if i \<in> set req
                        then st3\<lparr>required_ids := (required_ids st3)(s \<mapsto> removeAll i req)\<rparr>
                        else st3))))"

section \<open>ExtractionStep\<close>

definition get_self_lookup_behavior_for_field :: "extraction_step \<Rightarrow> string \<Rightarrow> lookup_behavior" where
  "get_self_lookup_behavior_for_field step f =
     (case lookup_behaviors step f of None \<Rightarrow> self_lookup_behavior step | Some b \<Rightarrow> b)"

definition get_outside_lookup_behavior_for_field :: "extraction_step \<Rightarrow> string \<Rightarrow> lookup_behavior" where
  "get_outside_lookup_behavior_for_field step f =
     (case lookup_behaviors step f of None \<Rightarrow> outside_lookup_behavior step | Some b \<Rightarrow> b)"

text \<open>The body of the first loop of \<^verbatim>\<open>ExtractionStep.store_result\<close>, over the self
  lookups.\<close>

definition register_self_lookup ::
  "extraction_step \<Rightarrow> row \<Rightarrow> string \<Rightarrow> extract_state \<Rightarrow> error option \<times> extract_state" where
  "register_self_lookup step result l st =
     (if get_self_lookup_behavior_for_field step l \<noteq> TRACE_NONE
      then (case row_get result l of
              Inl e \<Rightarrow> (Some e, st)
            | Inr None \<Rightarrow> (None, st)
            | Inr (Some v) \<Rightarrow>
                (case SalesforceId_init (PStr v) of
                   Inl e \<Rightarrow> (Some e, st)
                 | Inr i \<Rightarrow> (None, add_dependency (sobjectname step) i st)))
      else (None, st))"

text \<open>The body of the second loop, over the dependent lookups.\<close>

definition register_dependent_lookup ::
  "extraction_step \<Rightarrow> extract_operation \<Rightarrow> row \<Rightarrow> string \<Rightarrow> extract_state
     \<Rightarrow> error option \<times> extract_state" where
  "register_dependent_lookup step ctx result f st =
     (case row_get result f of
        Inl e \<Rightarrow> (Some e, st)
      | Inr None \<Rightarrow> (None, st)
      | Inr (Some lookup_value) \<Rightarrow>
     (case field_maps ctx (sobjectname step) f of
        None \<Rightarrow> (Some KeyError, st)
      | Some d \<Rightarrow>
     (case (if length (referenceTo d) > 1
            then (case get_sobject_name_for_id ctx (Some lookup_value) of
                    Inl e \<Rightarrow> Inl e
                  | Inr target_sobject \<Rightarrow>
                      if target_sobject \<notin> set (sobject_list ctx) then Inr None
                      else (case compare_index (<) (sobject_list ctx) (sobjectname step)
                                   target_sobject of
                              Inl e \<Rightarrow> Inl e
                            | Inr True \<Rightarrow> Inr None
                            | Inr False \<Rightarrow> Inr (Some target_sobject)))
            else (case referenceTo d of
                    [] \<Rightarrow> Inl IndexError
                  | t # _ \<Rightarrow> Inr (Some t))) of
        Inl e \<Rightarrow> (Some e, st)
      | Inr None \<Rightarrow> (None, st)
      | Inr (Some target_sobject) \<Rightarrow>
          (case SalesforceId_init (PStr lookup_value) of
             Inl e \<Rightarrow> (Some e, st)
           | Inr i \<Rightarrow> (None, add_dependency target_sobject i st)))))"

text \<open>
  \<^verbatim>\<open>lookup_value not in self.context.get_extracted_ids(target_sobject)\<close>: the value is a
  string or \<^verbatim>\<open>None\<close>, the set holds \<^verbatim>\<open>SalesforceId\<close> objects.  A string has the hash of
  an element exactly when it is the element's 18-character \<^verbatim>\<open>id\<close> (hash collisions
  aside), and \<^verbatim>\<open>SalesforceId.__eq__\<close> then holds; \<^verbatim>\<open>None\<close> is no element.
\<close>

definition value_in_ids :: "string option \<Rightarrow> salesforce_id list \<Rightarrow> bool" where
  "value_in_ids v ids = (case v of None \<Rightarrow> False | Some s \<Rightarrow> SalesforceId s \<in> set ids)"

definition outside_reference_message :: string where
  "outside_reference_message =
     ''{} {} has an outside reference in field {} ({}), which is not allowed by the extraction configuration.''"

text \<open>
  The body of the third loop, over the descendent lookups: the cross-hierarchy check
  with the outside lookup behaviors.  It changes the record only.
\<close>

definition check_descendent_lookup ::
  "extraction_step \<Rightarrow> extract_operation \<Rightarrow> extract_state \<Rightarrow> string \<Rightarrow> row \<Rightarrow> error + row" where
  "check_descendent_lookup step ctx st f result =
     (case row_get result f of
        Inl e \<Rightarrow> Inl e
      | Inr lookup_value \<Rightarrow>
     (case field_maps ctx (sobjectname step) f of
        None \<Rightarrow> Inl KeyError
      | Some d \<Rightarrow>
     (case (if length (referenceTo d) = 1 then Inr (hd (referenceTo d))
            else get_sobject_name_for_id ctx lookup_value) of
        Inl e \<Rightarrow> Inl e
      | Inr target_sobject \<Rightarrow>
          if \<not> value_in_ids lookup_value (get_extracted_ids st target_sobject)
          then (case get_outside_lookup_behavior_for_field step f of
                  DROP_FIELD \<Rightarrow> Inr (AList.delete f result)
                | INCLUDE \<Rightarrow> Inr result
                | ERROR \<Rightarrow>
                    (case row_get result ''Id'' of
                       Inl e \<Rightarrow> Inl e
                     | Inr rid \<Rightarrow>
                         Inl (Exception [outside_reference_message, sobjectname step,
                                py_str rid, f, py_str lookup_value]))
                | RECURSE \<Rightarrow> Inl NotImplementedError
                | _ \<Rightarrow> Inr result)
          else Inr result)))"

definition ExtractionStep_store_result ::
  "extraction_step \<Rightarrow> lookups \<Rightarrow> extract_operation \<Rightarrow> row \<Rightarrow> extract_state
     \<Rightarrow> error option \<times> extract_state" where
  "ExtractionStep_store_result step lk ctx result st =
     (case for_each (register_self_lookup step result) (self_lookups lk) st of
        (Some e, st1) \<Rightarrow> (Some e, st1)
      | (None, st1) \<Rightarrow>
     (case for_each (register_dependent_lookup step ctx result) (dependent_lookups lk) st1 of
        (Some e, st2) \<Rightarrow> (Some e, st2)
      | (None, st2) \<Rightarrow>
     (case fold_err (check_descendent_lookup step ctx st2) (descendent_lookups lk) result of
        Inl e \<Rightarrow> (Some e, st2)
      | Inr result' \<Rightarrow> ExtractOperation_store_result ctx (sobjectname step) result' st2)))"

definition perform_id_field_pass ::
  "extraction_step \<Rightarrow> lookups \<Rightarrow> extract_operation \<Rightarrow> string \<Rightarrow> salesforce_id list
     \<Rightarrow> extract_state \<Rightarrow> error option \<times> extract_state" where
  "perform_id_field_pass step lk ctx id_field id_set st =
     (if length id_set = 0 then (None, st)
      else for_each
             (\<lambda>(id_list, taken) st'.
                for_each (ExtractionStep_store_result step lk ctx)
                  (query_all ctx (id_query (get_field_list (field_scope step))
                                    (sobjectname step) id_field id_list))
                  (st'\<lparr>query_all_calls := query_all_calls st' @
                         [id_query (get_field_list (field_scope step))
                            (sobjectname step) id_field id_list]\<rparr>))
             (id_chunks (max_len (field_scope step)) id_set) st)"

definition unresolved_message :: string where
  "unresolved_message =
     ''Unable to resolve dependencies for sObject {}. The following Ids could not be found: {}''"

definition resolve_registered_dependencies ::
  "extraction_step \<Rightarrow> lookups \<Rightarrow> extract_operation \<Rightarrow> extract_state
     \<Rightarrow> error option \<times> extract_state" where
  "resolve_registered_dependencies step lk ctx st =
     (let pre_deps = get_dependencies st (sobjectname step)
      in case perform_id_field_pass step lk ctx ''Id'' pre_deps st of
           (Some e, st') \<Rightarrow> (Some e, st')
         | (None, st') \<Rightarrow>
             (let missing = filter (\<lambda>i. i \<in> set pre_deps) (get_dependencies st' (sobjectname step))
              in if length missing > 0
                 then (Some (Exception [unresolved_message, sobjectname step,
                               join_with '', '' (map SalesforceId_str missing)]), st')
                 else (None, st')))"

definition perform_bulk_api_pass ::
  "extraction_step \<Rightarrow> lookups \<Rightarrow> extract_operation \<Rightarrow> string \<Rightarrow> extract_state
     \<Rightarrow> error option \<times> extract_state" where
  "perform_bulk_api_pass step lk ctx query st =
     for_each (ExtractionStep_store_result step lk ctx) (bulk_query ctx (sobjectname step) query) st"

definition perform_lookup_pass ::
  "extraction_step \<Rightarrow> lookups \<Rightarrow> extract_operation \<Rightarrow> string \<Rightarrow> extract_state
     \<Rightarrow> error option \<times> extract_state" where
  "perform_lookup_pass step lk ctx field st =
     (case get_sobject_ids_for_reference ctx st (sobjectname step) field of
        Inl e \<Rightarrow> (Some e, st)
      | Inr ids \<Rightarrow> perform_id_field_pass step lk ctx field ids st)"

text \<open>One round of the tracing loop of \<^verbatim>\<open>ExtractionStep.execute\<close>: the children through
  every self lookup, then the parents.\<close>

definition trace_iteration ::
  "extraction_step \<Rightarrow> lookups \<Rightarrow> extract_operation \<Rightarrow> extract_state
     \<Rightarrow> error option \<times> extract_state" where
  "trace_iteration step lk ctx st =
     (case for_each (perform_lookup_pass step lk ctx) (self_lookups lk) st of
        (Some e, st') \<Rightarrow> (Some e, st')
      | (None, st') \<Rightarrow> resolve_registered_dependencies step lk ctx st')"



section \<open>The extracted identifiers only grow\<close>

text \<open>
  \<open>only_appends st st'\<close>: for every sObject the extracted identifiers of \<open>st'\<close> are
  those of \<open>st\<close> followed by further ones, each an 18-character identifier that was
  not extracted in \<open>st\<close>.
\<close>

definition only_appends :: "extract_state \<Rightarrow> extract_state \<Rightarrow> bool" where
  "only_appends st st' \<longleftrightarrow>
     (\<forall>s. \<exists>new. get_extracted_ids st' s = get_extracted_ids st s @ new
            \<and> (\<forall>i \<in> set new. length (sid i) = 18 \<and> i \<notin> set (get_extracted_ids st s)))"

lemma only_appends_refl: "only_appends st st"
  by (simp add: only_appends_def)

lemma only_appends_trans:
  assumes "only_appends a b" and "only_appends b c"
  shows "only_appends a c"
  unfolding only_appends_def
proof
  fix s
  from assms(1) obtain n1 where 1: "get_extracted_ids b s = get_extracted_ids a s @ n1"
    "\<forall>i \<in> set n1. length (sid i) = 18 \<and> i \<notin> set (get_extracted_ids a s)"
    unfolding only_appends_def by blast
  from assms(2) obtain n2 where 2: "get_extracted_ids c s = get_extracted_ids b s @ n2"
    "\<forall>i \<in> set n2. length (sid i) = 18 \<and> i \<notin> set (get_extracted_ids b s)"
    unfolding only_appends_def by blast
  have "get_extracted_ids c s = get_extracted_ids a s @ (n1 @ n2)" using 1(1) 2(1) by simp
  moreover have "\<forall>i \<in> set (n1 @ n2). length (sid i) = 18 \<and> i \<notin> set (get_extracted_ids a s)"
    using 1 2(2) by auto
  ultimately show "\<exists>new. get_extracted_ids c s = get_extracted_ids a s @ new
            \<and> (\<forall>i \<in> set new. length (sid i) = 18 \<and> i \<notin> set (get_extracted_ids a s))"
    by blast
qed

lemma only_appends_same:
  "extracted_ids st' = extracted_ids st \<Longrightarrow> only_appends st st'"
  by (simp add: only_appends_def get_extracted_ids_def)

lemma for_each_only_appends:
  assumes "\<And>x s. only_appends s (snd (body x s))"
  shows "only_appends st (snd (for_each body xs st))"
proof (induction xs arbitrary: st)
  case Nil
  show ?case by (simp add: only_appends_refl)
next
  case (Cons x xs)
  obtain r st' where b: "body x st = (r, st')" by (cases "body x st")
  have 1: "only_appends st st'" using assms [of st x] b by simp
  show ?case
  proof (cases r)
    case None
    with b have "snd (for_each body (x # xs) st) = snd (for_each body xs st')" by simp
    with only_appends_trans [OF 1 Cons.IH [of st']] show ?thesis by simp
  next
    case (Some e)
    with b 1 show ?thesis by simp
  qed
qed

lemma SalesforceId_init_length:
  "SalesforceId_init (to_pyval v) = Inr i \<Longrightarrow> length (sid i) = 18"
  by (cases v) (auto simp: to_pyval_def length_id_suffix split: if_splits)

lemma add_dependency_extracted [simp]:
  "extracted_ids (add_dependency s i st) = extracted_ids st"
  by (simp add: add_dependency_def Let_def)

lemma ExtractOperation_store_result_only_appends:
  "only_appends st (snd (ExtractOperation_store_result ctx s record st))"
proof -
  let ?st1 = "if extracted_ids st s = None
                 then st\<lparr>extracted_ids := (extracted_ids st)(s \<mapsto> [])\<rparr> else st"
  have e1: "get_extracted_ids ?st1 = get_extracted_ids st"
    by (rule ext) (simp add: get_extracted_ids_def)
  show ?thesis
  proof (cases "row_get record ''Id''")
    case (Inl e)
    then show ?thesis
      by (simp add: ExtractOperation_store_result_def only_appends_def e1 del: fun_upd_apply)
  next
    case (Inr v)
    note v = this
    show ?thesis
    proof (cases "SalesforceId_init (to_pyval v)")
      case (Inl e)
      with v show ?thesis
        by (simp add: ExtractOperation_store_result_def only_appends_def e1 del: fun_upd_apply)
    next
      case (Inr i)
      have len: "length (sid i) = 18" using SalesforceId_init_length [OF Inr] .
      have "\<exists>new. get_extracted_ids (snd (ExtractOperation_store_result ctx s record st)) t
               = get_extracted_ids st t @ new
            \<and> (\<forall>i \<in> set new. length (sid i) = 18 \<and> i \<notin> set (get_extracted_ids st t))" for t
      proof (cases "i \<in> set (get_extracted_ids st s)")
        case True
        then have "get_extracted_ids (snd (ExtractOperation_store_result ctx s record st)) t
               = get_extracted_ids st t"
          using v Inr e1
          by (auto simp: ExtractOperation_store_result_def Let_def get_extracted_ids_def
              split: option.splits)
        then show ?thesis by simp
      next
        case False
        then have "get_extracted_ids (snd (ExtractOperation_store_result ctx s record st)) t
               = get_extracted_ids st t @ (if t = s then [i] else [])"
          using v Inr e1
          by (auto simp: ExtractOperation_store_result_def Let_def get_extracted_ids_def
              split: option.splits)
        with False len show ?thesis by auto
      qed
      then show ?thesis unfolding only_appends_def by blast
    qed
  qed
qed


lemma register_self_lookup_only_appends:
  "only_appends st (snd (register_self_lookup step result l st))"
  by (auto simp: register_self_lookup_def only_appends_refl intro!: only_appends_same
      split: sum.splits option.splits)

lemma register_dependent_lookup_only_appends:
  "only_appends st (snd (register_dependent_lookup step ctx result f st))"
  by (auto simp: register_dependent_lookup_def only_appends_refl intro!: only_appends_same
      split: sum.splits option.splits)

lemma ExtractionStep_store_result_only_appends:
  "only_appends st (snd (ExtractionStep_store_result step lk ctx result st))"
proof -
  obtain r1 st1 where 1: "for_each (register_self_lookup step result) (self_lookups lk) st = (r1, st1)"
    by (metis prod.exhaust)
  have a1: "only_appends st st1"
    using for_each_only_appends [of "register_self_lookup step result" st "self_lookups lk"]
      register_self_lookup_only_appends 1 by simp
  obtain r2 st2 where 2: "for_each (register_dependent_lookup step ctx result) (dependent_lookups lk) st1
      = (r2, st2)"
    by (metis prod.exhaust)
  have a2: "only_appends st1 st2"
    using for_each_only_appends [of "register_dependent_lookup step ctx result" st1 "dependent_lookups lk"]
      register_dependent_lookup_only_appends 2 by simp
  have a12: "only_appends st st2" using only_appends_trans [OF a1 a2] .
  have a3: "only_appends st (snd (ExtractOperation_store_result ctx (sobjectname step) r' st2))" for r'
    using only_appends_trans [OF a12 ExtractOperation_store_result_only_appends] .
  show ?thesis
    using 1 2 a1 a12 a3
    by (auto simp: ExtractionStep_store_result_def split: option.splits sum.splits)
qed

lemma perform_id_field_pass_only_appends:
  "only_appends st (snd (perform_id_field_pass step lk ctx id_field id_set st))"
proof -
  have inner: "only_appends s (snd (for_each (ExtractionStep_store_result step lk ctx) rows s))"
    for rows s
    by (rule for_each_only_appends) (rule ExtractionStep_store_result_only_appends)
  have logged: "only_appends s
      (snd (for_each (ExtractionStep_store_result step lk ctx) rows (s\<lparr>query_all_calls := q\<rparr>)))"
    for rows s q
    by (rule only_appends_trans [OF only_appends_same inner]) simp
  have "only_appends st (snd (for_each
             (\<lambda>(id_list, taken) st'.
                for_each (ExtractionStep_store_result step lk ctx)
                  (query_all ctx (id_query (get_field_list (field_scope step))
                                    (sobjectname step) id_field id_list))
                  (st'\<lparr>query_all_calls := query_all_calls st' @
                         [id_query (get_field_list (field_scope step))
                            (sobjectname step) id_field id_list]\<rparr>))
             (id_chunks (max_len (field_scope step)) id_set) st))"
    by (rule for_each_only_appends) (auto simp: logged)
  then show ?thesis by (simp add: perform_id_field_pass_def only_appends_refl)
qed

lemma resolve_registered_dependencies_only_appends:
  "only_appends st (snd (resolve_registered_dependencies step lk ctx st))"
  using perform_id_field_pass_only_appends
    [of st step lk ctx "''Id''" "get_dependencies st (sobjectname step)"]
  by (auto simp: resolve_registered_dependencies_def Let_def split: prod.splits option.splits)

lemma perform_lookup_pass_only_appends:
  "only_appends st (snd (perform_lookup_pass step lk ctx field st))"
  by (auto simp: perform_lookup_pass_def only_appends_refl perform_id_field_pass_only_appends
      split: sum.splits)

lemma perform_bulk_api_pass_only_appends:
  "only_appends st (snd (perform_bulk_api_pass step lk ctx query st))"
  unfolding perform_bulk_api_pass_def
  by (rule for_each_only_appends) (rule ExtractionStep_store_result_only_appends)

lemma trace_iteration_only_appends:
  "only_appends st (snd (trace_iteration step lk ctx st))"
proof -
  obtain r st1 where 1: "for_each (perform_lookup_pass step lk ctx) (self_lookups lk) st = (r, st1)"
    by (metis prod.exhaust)
  have a1: "only_appends st st1"
    using for_each_only_appends [of "perform_lookup_pass step lk ctx" st "self_lookups lk"]
      perform_lookup_pass_only_appends 1 by simp
  have a2: "only_appends st (snd (resolve_registered_dependencies step lk ctx st1))"
    using only_appends_trans [OF a1 resolve_registered_dependencies_only_appends] .
  show ?thesis using 1 a1 a2 by (auto simp: trace_iteration_def split: option.splits)
qed

text \<open>The identifiers an iteration can still add: finitely many.\<close>

definition unextracted :: "extract_state \<Rightarrow> string \<Rightarrow> salesforce_id set" where
  "unextracted st s = {i. length (sid i) = 18} - set (get_extracted_ids st s)"

lemma finite_ids_18: "finite {i. length (sid i) = 18}"
proof -
  have "finite {xs :: string. set xs \<subseteq> UNIV \<and> length xs = 18}"
    by (rule finite_lists_length_eq) simp
  then have "finite (SalesforceId ` {xs :: string. length xs = 18})" by simp
  moreover have "{i. length (sid i) = 18} = SalesforceId ` {xs :: string. length xs = 18}"
  proof (rule set_eqI)
    fix i show "i \<in> {i. length (sid i) = 18} \<longleftrightarrow> i \<in> SalesforceId ` {xs :: string. length xs = 18}"
      by (cases i) auto
  qed
  ultimately show ?thesis by simp
qed

lemma only_appends_count:
  assumes "only_appends st st'"
  shows "set (get_extracted_ids st s) \<subseteq> set (get_extracted_ids st' s)"
    and "length (get_extracted_ids st s) \<le> length (get_extracted_ids st' s)"
    and "length (get_extracted_ids st' s) = length (get_extracted_ids st s)
           \<longleftrightarrow> get_extracted_ids st' s = get_extracted_ids st s"
    and "length (get_extracted_ids st' s) \<noteq> length (get_extracted_ids st s)
           \<Longrightarrow> card (unextracted st' s) < card (unextracted st s)"
proof -
  from assms obtain new where n: "get_extracted_ids st' s = get_extracted_ids st s @ new"
    "\<forall>i \<in> set new. length (sid i) = 18 \<and> i \<notin> set (get_extracted_ids st s)"
    unfolding only_appends_def by blast
  show "set (get_extracted_ids st s) \<subseteq> set (get_extracted_ids st' s)" using n(1) by simp
  show "length (get_extracted_ids st s) \<le> length (get_extracted_ids st' s)" using n(1) by simp
  show "length (get_extracted_ids st' s) = length (get_extracted_ids st s)
           \<longleftrightarrow> get_extracted_ids st' s = get_extracted_ids st s" using n(1) by auto
  assume "length (get_extracted_ids st' s) \<noteq> length (get_extracted_ids st s)"
  with n(1) obtain x xs where x: "new = x # xs" by (cases new) auto
  with n(2) have x18: "length (sid x) = 18" and xn: "x \<notin> set (get_extracted_ids st s)" by auto
  have "unextracted st' s \<subseteq> unextracted st s" using n(1) by (auto simp: unextracted_def)
  moreover have "x \<in> unextracted st s" using x18 xn by (simp add: unextracted_def)
  moreover have "x \<notin> unextracted st' s" using n(1) x by (simp add: unextracted_def)
  ultimately have "unextracted st' s \<subset> unextracted st s" by blast
  moreover have "finite (unextracted st s)" using finite_ids_18 by (simp add: unextracted_def)
  ultimately show "card (unextracted st' s) < card (unextracted st s)"
    by (rule psubset_card_mono [rotated])
qed

text \<open>
  The \<^verbatim>\<open>while True\<close> loop of \<^verbatim>\<open>ExtractionStep.execute\<close>: it ends when a round leaves the
  number of extracted identifiers of the step's sObject as it was, or when a round
  raises.
\<close>

function trace_self_lookups ::
  "extraction_step \<Rightarrow> lookups \<Rightarrow> extract_operation \<Rightarrow> extract_state
     \<Rightarrow> error option \<times> extract_state" where
  "trace_self_lookups step lk ctx st =
     (let before_count = length (get_extracted_ids st (sobjectname step))
      in case trace_iteration step lk ctx st of
           (Some e, st') \<Rightarrow> (Some e, st')
         | (None, st') \<Rightarrow>
             (let after_count = length (get_extracted_ids st' (sobjectname step))
              in if before_count = after_count then (None, st')
                 else trace_self_lookups step lk ctx st'))"
  by pat_completeness auto
termination
proof (relation "measure (\<lambda>(step, lk, ctx, st). card (unextracted st (sobjectname step)))")
  show "wf (measure (\<lambda>(step, lk, ctx, st). card (unextracted st (sobjectname step))))" by simp
next
  fix step :: extraction_step and lk ctx st before_count x1 x2 st' after_count
  assume a: "(x1, st') = trace_iteration step lk ctx st" "x1 = None"
           "before_count = length (get_extracted_ids st (sobjectname step))"
           "after_count = length (get_extracted_ids st' (sobjectname step))"
           "before_count \<noteq> after_count"
  have "only_appends st st'"
    using trace_iteration_only_appends [of st step lk ctx] a(1) by (metis snd_conv)
  from only_appends_count(4) [OF this, of "sobjectname step"] a(3,4,5)
  show "((step, lk, ctx, st'), (step, lk, ctx, st))
          \<in> measure (\<lambda>(step, lk, ctx, st). card (unextracted st (sobjectname step)))"
    by simp
qed

declare trace_self_lookups.simps [simp del]


text \<open>The same loop with a bound on the number of rounds: \<open>None\<close> when the bound is
  used up before the loop has ended.\<close>

fun trace_self_lookups_bounded ::
  "nat \<Rightarrow> extraction_step \<Rightarrow> lookups \<Rightarrow> extract_operation \<Rightarrow> extract_state
     \<Rightarrow> (error option \<times> extract_state) option" where
  "trace_self_lookups_bounded 0 step lk ctx st = None"
| "trace_self_lookups_bounded (Suc n) step lk ctx st =
     (case trace_iteration step lk ctx st of
        (Some e, st') \<Rightarrow> Some (Some e, st')
      | (None, st') \<Rightarrow>
          if length (get_extracted_ids st (sobjectname step))
               = length (get_extracted_ids st' (sobjectname step))
          then Some (None, st')
          else trace_self_lookups_bounded n step lk ctx st')"

text \<open>\<^verbatim>\<open>ExtractionStep.execute\<close> after \<^verbatim>\<open>scan_fields\<close>, for a scope other than
  \<^verbatim>\<open>ALL_RECORDS\<close>, up to the tracing loop: the pass of the scope, then the registered
  dependencies.\<close>

definition scope_passes ::
  "extraction_step \<Rightarrow> lookups \<Rightarrow> extract_operation \<Rightarrow> extract_state
     \<Rightarrow> error option \<times> extract_state" where
  "scope_passes step lk ctx st =
     (case (if scope step = QUERY
            then perform_bulk_api_pass step lk ctx
                   (''SELECT '' @ get_field_list (field_scope step) @ '' FROM '' @ sobjectname step
                      @ '' WHERE '' @ py_str (where_clause step)) st
            else if scope step = DESCENDENTS
            then for_each (perform_lookup_pass step lk ctx) (descendent_lookups lk) st
            else (None, st)) of
        (Some e, st1) \<Rightarrow> (Some e, st1)
      | (None, st1) \<Rightarrow> resolve_registered_dependencies step lk ctx st1)"

definition ExtractionStep_execute ::
  "extraction_step \<Rightarrow> extract_operation \<Rightarrow> extract_state \<Rightarrow> error option \<times> extract_state" where
  "ExtractionStep_execute step ctx st =
     (case scan_fields (field_maps ctx (sobjectname step)) (sobject_list ctx)
             (sobjectname step) (field_scope step) of
        Inl e \<Rightarrow> (Some e, st)
      | Inr lk \<Rightarrow>
          if scope step = ALL_RECORDS
          then perform_bulk_api_pass step lk ctx
                 (''SELECT '' @ get_field_list (field_scope step) @ '' FROM '' @ sobjectname step) st
          else (case scope_passes step lk ctx st of
                  (Some e, st2) \<Rightarrow> (Some e, st2)
                | (None, st2) \<Rightarrow>
                    if length (self_lookups lk) > 0 \<and> self_lookup_behavior step = TRACE_ALL
                       \<and> scope step \<noteq> ALL_RECORDS
                    then trace_self_lookups step lk ctx st2
                    else (None, st2)))"

text \<open>\<^verbatim>\<open>ExtractOperation.execute\<close>: the steps in order; \<^verbatim>\<open>get_sobject_list\<close> is the list of
  their sObject names.\<close>

definition ExtractOperation_execute ::
  "extract_operation \<Rightarrow> extraction_step list \<Rightarrow> extract_state \<Rightarrow> error option \<times> extract_state" where
  "ExtractOperation_execute ctx steps st =
     for_each (\<lambda>step. ExtractionStep_execute step (ctx\<lparr>sobject_list := map sobjectname steps\<rparr>))
       steps st"

lemma trace_self_lookups_only_appends:
  "only_appends st (snd (trace_self_lookups step lk ctx st))"
proof (induction step lk ctx st rule: trace_self_lookups.induct)
  case (1 step lk ctx st)
  obtain r st' where it: "trace_iteration step lk ctx st = (r, st')" by (metis prod.exhaust)
  have a: "only_appends st st'" using trace_iteration_only_appends [of st step lk ctx] it by simp
  show ?case
  proof (cases r)
    case (Some e)
    with it a show ?thesis by (subst trace_self_lookups.simps) simp
  next
    case None
    show ?thesis
    proof (cases "length (get_extracted_ids st (sobjectname step))
                    = length (get_extracted_ids st' (sobjectname step))")
      case True
      with it None a show ?thesis by (subst trace_self_lookups.simps) simp
    next
      case False
      have "only_appends st' (snd (trace_self_lookups step lk ctx st'))"
        using 1 [OF refl it [symmetric] None refl False] .
      from only_appends_trans [OF a this] it None False show ?thesis
        by (subst trace_self_lookups.simps) simp
    qed
  qed
qed

lemma trace_self_lookups_bounded_enough:
  "card (unextracted st (sobjectname step)) < n \<Longrightarrow>
     trace_self_lookups_bounded n step lk ctx st = Some (trace_self_lookups step lk ctx st)"
proof (induction n arbitrary: st)
  case 0
  then show ?case by simp
next
  case (Suc n)
  obtain r st' where it: "trace_iteration step lk ctx st = (r, st')" by (metis prod.exhaust)
  have a: "only_appends st st'" using trace_iteration_only_appends [of st step lk ctx] it by simp
  show ?case
  proof (cases r)
    case (Some e)
    with it show ?thesis by (subst trace_self_lookups.simps) simp
  next
    case None
    show ?thesis
    proof (cases "length (get_extracted_ids st (sobjectname step))
                    = length (get_extracted_ids st' (sobjectname step))")
      case True
      with it None show ?thesis by (subst trace_self_lookups.simps) simp
    next
      case False
      then have "card (unextracted st' (sobjectname step)) < card (unextracted st (sobjectname step))"
        using only_appends_count(4) [OF a, of "sobjectname step"] by simp
      with Suc.prems have "card (unextracted st' (sobjectname step)) < n" by simp
      from Suc.IH [OF this] it None False show ?thesis
        by (subst trace_self_lookups.simps) simp
    qed
  qed
qed


section \<open>Example: a hierarchy of three accounts\<close>

text \<open>
  Accounts A, B and C with B's parent A and C's parent B; the extraction starts from C.
  The store answers the six queries the step issues.
\<close>

definition account_fields :: field_map where
  "account_fields =
     [''Id'' \<mapsto> \<lparr>ftype = ''id'', referenceTo = [], soapType = ''tns:ID''\<rparr>,
      ''Name'' \<mapsto> \<lparr>ftype = ''string'', referenceTo = [], soapType = ''xsd:string''\<rparr>,
      ''ParentId'' \<mapsto> \<lparr>ftype = ''reference'', referenceTo = [''Account''], soapType = ''tns:ID''\<rparr>]"

definition account_A :: row where
  "account_A = [(''Id'', Some ''001000000000001AAA''), (''Name'', Some ''A''), (''ParentId'', None)]"

definition account_B :: row where
  "account_B = [(''Id'', Some ''001000000000002AAA''), (''Name'', Some ''B''),
                (''ParentId'', Some ''001000000000001AAA'')]"

definition account_C :: row where
  "account_C = [(''Id'', Some ''001000000000003AAA''), (''Name'', Some ''C''),
                (''ParentId'', Some ''001000000000002AAA'')]"

definition account_query :: "string \<Rightarrow> string list \<Rightarrow> string" where
  "account_query id_field ids =
     id_query ''Id, Name, ParentId'' ''Account'' id_field
       (join_with '', '' (map (\<lambda>i. quote @ i @ quote) ids))"

definition account_store :: "string \<Rightarrow> row list" where
  "account_store q =
     (if q = account_query ''Id'' [''001000000000003AAA''] then [account_C]
      else if q = account_query ''Id'' [''001000000000002AAA''] then [account_B]
      else if q = account_query ''Id'' [''001000000000001AAA''] then [account_A]
      else if q = account_query ''ParentId'' [''001000000000003AAA'', ''001000000000002AAA'']
        then [account_C]
      else if q = account_query ''ParentId''
                    [''001000000000003AAA'', ''001000000000002AAA'', ''001000000000001AAA'']
        then [account_B, account_C]
      else [])"

definition account_operation :: extract_operation where
  "account_operation =
     \<lparr>sobject_list = [''Account''],
      field_maps = (\<lambda>s. if s = ''Account'' then account_fields else Map.empty),
      mappers = Map.empty,
      key_prefix_map = [''001'' \<mapsto> ''Account''],
      query_all = account_store,
      bulk_query = (\<lambda>s q. [])\<rparr>"

definition account_step :: extraction_step where
  "account_step =
     \<lparr>sobjectname = ''Account'', field_scope = [''Id'', ''Name'', ''ParentId''],
      outside_lookup_behavior = INCLUDE, lookup_behaviors = Map.empty,
      scope = SELECTED_RECORDS, where_clause = None, self_lookup_behavior = TRACE_ALL\<rparr>"

definition account_lookups :: lookups where
  "account_lookups =
     \<lparr>all_lookups = [''ParentId''], self_lookups = [''ParentId''],
      descendent_lookups = [], dependent_lookups = []\<rparr>"

definition account_start :: extract_state where
  "account_start =
     \<lparr>required_ids = [''Account'' \<mapsto> [SalesforceId ''001000000000003AAA'']],
      extracted_ids = Map.empty,
      output_files = [''Account'' \<mapsto> []],
      query_all_calls = []\<rparr>"

lemma account_scan:
  "scan_fields (field_maps account_operation (sobjectname account_step))
     (sobject_list account_operation) (sobjectname account_step) (field_scope account_step)
   = Inr account_lookups"
  by code_simp

lemma account_execute_extracted:
  "fst (ExtractionStep_execute account_step account_operation account_start) = None
   \<and> get_extracted_ids (snd (ExtractionStep_execute account_step account_operation account_start))
        ''Account''
      = [SalesforceId ''001000000000003AAA'', SalesforceId ''001000000000002AAA'',
         SalesforceId ''001000000000001AAA'']
   \<and> output_files (snd (ExtractionStep_execute account_step account_operation account_start))
        ''Account''
      = Some [account_C, account_B, account_A]"
  by code_simp

section \<open>The sink holds one row per extracted identifier\<close>

text \<open>The identifier \<^verbatim>\<open>SalesforceId(record['Id'])\<close> of a record, and the row
  \<^verbatim>\<open>ExtractOperation.store_result\<close> writes for it.\<close>

definition record_id :: "row \<Rightarrow> error + salesforce_id" where
  "record_id record =
     (case row_get record ''Id'' of Inl e \<Rightarrow> Inl e | Inr v \<Rightarrow> SalesforceId_init (to_pyval v))"

definition written_row :: "extract_operation \<Rightarrow> string \<Rightarrow> row \<Rightarrow> row" where
  "written_row ctx s record =
     (case mappers ctx s of Some m \<Rightarrow> transform_record m record | None \<Rightarrow> record)"

text \<open>
  For every sObject the extracted identifiers are pairwise different, and the rows of
  its output file are the rows written for records that carry, in this order, exactly
  the extracted identifiers.
\<close>

definition one_row_per_id :: "extract_operation \<Rightarrow> extract_state \<Rightarrow> bool" where
  "one_row_per_id ctx st \<longleftrightarrow>
     (\<forall>s. distinct (get_extracted_ids st s)
        \<and> (\<forall>rows. output_files st s = Some rows \<longrightarrow>
               (\<exists>recs. rows = map (written_row ctx s) recs
                  \<and> map record_id recs = map Inr (get_extracted_ids st s))))"

text \<open>A run of \<^verbatim>\<open>ExtractOperation.store_result\<close> calls, each for an sObject and a record.\<close>

definition store_results ::
  "extract_operation \<Rightarrow> (string \<times> row) list \<Rightarrow> extract_state \<Rightarrow> error option \<times> extract_state" where
  "store_results ctx calls st =
     for_each (\<lambda>(s, record). ExtractOperation_store_result ctx s record) calls st"

section \<open>LoadOperation\<close>

text \<open>
  One entry of the result list of a bulk insert or update: the keys \<^verbatim>\<open>success\<close> and
  \<^verbatim>\<open>id\<close>.  The calls made to the bulk interface are kept in the state, in order; the
  store's answer to a call is a function of the calls before it and of the call.
\<close>

record bulk_result =
  success :: bool
  result_id :: "string option"

datatype bulk_call = Insert string "row list" | Update string "row list"

record load_operation = operation +
  input_files :: "string \<rightharpoonup> row list"
  bulk_insert :: "bulk_call list \<Rightarrow> string \<Rightarrow> row list \<Rightarrow> bulk_result list"
  bulk_update :: "bulk_call list \<Rightarrow> string \<Rightarrow> row list \<Rightarrow> bulk_result list"

record load_state =
  global_id_map :: "salesforce_id \<rightharpoonup> salesforce_id"
  calls :: "bulk_call list"

definition register_new_id :: "salesforce_id \<Rightarrow> salesforce_id \<Rightarrow> load_state \<Rightarrow> load_state" where
  "register_new_id old_id new_id st = st\<lparr>global_id_map := (global_id_map st)(old_id \<mapsto> new_id)\<rparr>"

definition get_new_id :: "load_state \<Rightarrow> salesforce_id \<Rightarrow> salesforce_id option" where
  "get_new_id st old_id = global_id_map st old_id"

section \<open>LoadStep\<close>

definition get_lookup_behavior_for_field :: "step \<Rightarrow> string \<Rightarrow> lookup_behavior" where
  "get_lookup_behavior_for_field step f =
     (case lookup_behaviors step f of None \<Rightarrow> outside_lookup_behavior step | Some b \<Rightarrow> b)"

text \<open>
  \<^verbatim>\<open>LoadStep.get_value_for_lookup\<close>.  The result is a string, or \<^verbatim>\<open>None\<close> where the
  function ends without a \<^verbatim>\<open>return\<close> (no branch of the chain is for \<^verbatim>\<open>RECURSE\<close>).
\<close>

definition get_value_for_lookup ::
  "step \<Rightarrow> load_state \<Rightarrow> string \<Rightarrow> string option \<Rightarrow> string option \<Rightarrow> error + string option" where
  "get_value_for_lookup step st lookup v rid =
     (let b = get_lookup_behavior_for_field step lookup
      in case SalesforceId_init (to_pyval v) of
           Inl e \<Rightarrow> Inl e
         | Inr i \<Rightarrow>
             (case get_new_id st i of
                Some mapped_id \<Rightarrow> Inr (Some (SalesforceId_str mapped_id))
              | None \<Rightarrow>
                  if b = INCLUDE then Inr v
                  else if b = ERROR
                  then Inl (Exception [outside_reference_message, sobjectname step,
                              py_str rid, lookup, py_str v])
                  else if b = DROP_FIELD then Inr (Some '''')
                  else Inr None))"

text \<open>\<^verbatim>\<open>LoadStep.populate_lookups\<close>: the keys of the record in order, each with its own
  value or, for a key among \<open>lookups\<close>, the value \<^verbatim>\<open>get_value_for_lookup\<close> gives.\<close>

definition populate_lookups :: "step \<Rightarrow> load_state \<Rightarrow> row \<Rightarrow> string list \<Rightarrow> error + row" where
  "populate_lookups step st record lookups =
     map_err (\<lambda>(k, v).
        if k \<notin> set lookups then Inr (k, v)
        else (case row_get record ''Id'' of
                Inl e \<Rightarrow> Inl e
              | Inr rid \<Rightarrow>
                  (case get_value_for_lookup step st k v rid of
                     Inl e \<Rightarrow> Inl e
                   | Inr v' \<Rightarrow> Inr (k, v')))) record"

text \<open>\<^verbatim>\<open>str.lower\<close> on ASCII letters, all that the Boolean words compared with need.\<close>

definition ascii_lower :: "char \<Rightarrow> char" where
  "ascii_lower c = (if is_upper c then char_of (of_char c + (32 :: nat)) else c)"

definition lower :: "string \<Rightarrow> string" where
  "lower s = map ascii_lower s"

definition convert_value :: "string option \<Rightarrow> string \<Rightarrow> error + string option" where
  "convert_value v field_type =
     (if field_type = ''xsd:boolean''
      then (case v of
              None \<Rightarrow> Inr (Some ''false'')
            | Some s \<Rightarrow>
                if lower s \<in> set [''no'', ''false'', ''n'', ''f'', ''0'', '''']
                then Inr (Some ''false'')
                else if lower s \<in> set [''yes'', ''true'', ''y'', ''t'', ''1'']
                then Inr (Some ''true'')
                else Inl ValueError)
      else (case v of
              None \<Rightarrow> Inr None
            | Some s \<Rightarrow>
                if length s = 0 then Inr None
                else if field_type = ''tns:ID'' then Inr (Some s)
                else if field_type \<in> set [''xsd:string'', ''xsd:date'', ''xsd:dateTime'',
                                           ''xsd:int'', ''xsd:double'']
                then Inr (Some s)
                else if field_type \<in> set [''base64'', ''xsd:anyType'']
                then Inl NotImplementedError
                else Inr None))"

definition primitivize :: "step \<Rightarrow> load_operation \<Rightarrow> row \<Rightarrow> error + row" where
  "primitivize step ctx record =
     map_err (\<lambda>(k, v).
        case field_maps ctx (sobjectname step) k of
          None \<Rightarrow> Inl KeyError
        | Some d \<Rightarrow> (case convert_value v (soapType d) of
                       Inl e \<Rightarrow> Inl e
                     | Inr v' \<Rightarrow> Inr (k, v'))) record"

definition LoadStep_transform_record :: "step \<Rightarrow> load_operation \<Rightarrow> row \<Rightarrow> row" where
  "LoadStep_transform_record step ctx record =
     (case mappers ctx (sobjectname step) of
        Some m \<Rightarrow> transform_record m record
      | None \<Rightarrow> record)"

text \<open>The first loop of \<^verbatim>\<open>LoadStep.execute\<close>: the records to insert.\<close>

definition records_to_insert ::
  "step \<Rightarrow> lookups \<Rightarrow> load_operation \<Rightarrow> load_state \<Rightarrow> row list \<Rightarrow> error + row list" where
  "records_to_insert step lk ctx st reader =
     map_err (\<lambda>record.
        case populate_lookups step st (LoadStep_transform_record step ctx record)
               (descendent_lookups lk) of
          Inl e \<Rightarrow> Inl e
        | Inr populated \<Rightarrow> primitivize step ctx populated) reader"

text \<open>
  The loop over \<^verbatim>\<open>enumerate(results)\<close> of \<^verbatim>\<open>LoadStep.execute\<close>, from index \<open>i\<close> on.
  Both branches read \<^verbatim>\<open>records_to_load[i]['Id']\<close> first.
\<close>

fun register_results ::
  "string \<Rightarrow> row list \<Rightarrow> nat \<Rightarrow> bulk_result list \<Rightarrow> load_state \<Rightarrow> error option \<times> load_state" where
  "register_results s records_to_load i [] st = (None, st)"
| "register_results s records_to_load i (r # rs) st =
     (case (if i < length records_to_load then row_get (records_to_load ! i) ''Id''
            else Inl IndexError) of
        Inl e \<Rightarrow> (Some e, st)
      | Inr old \<Rightarrow>
          if success r
          then (case SalesforceId_init (to_pyval old) of
                  Inl e \<Rightarrow> (Some e, st)
                | Inr old_id \<Rightarrow>
                    (case SalesforceId_init (to_pyval (result_id r)) of
                       Inl e \<Rightarrow> (Some e, st)
                     | Inr new_id \<Rightarrow>
                         register_results s records_to_load (Suc i) rs
                           (register_new_id old_id new_id st)))
          else (Some (Exception [''Failed to load {} {}'', s, py_str old]), st))"

definition LoadStep_execute ::
  "step \<Rightarrow> lookups \<Rightarrow> load_operation \<Rightarrow> load_state \<Rightarrow> error option \<times> load_state" where
  "LoadStep_execute step lk ctx st =
     (case input_files ctx (sobjectname step) of
        None \<Rightarrow> (Some KeyError, st)
      | Some reader \<Rightarrow>
          (case records_to_insert step lk ctx st reader of
             Inl e \<Rightarrow> (Some e, st)
           | Inr records_to_load \<Rightarrow>
               register_results (sobjectname step) records_to_load 0
                 (bulk_insert ctx (calls st) (sobjectname step) records_to_load)
                 (st\<lparr>calls := calls st @ [Insert (sobjectname step) records_to_load]\<rparr>)))"

text \<open>
  \<^verbatim>\<open>self.dependent_lookups + self.self_lookups\<close>: both are \<^verbatim>\<open>set\<close> objects
  (\<^verbatim>\<open>scan_fields\<close> builds them with set comprehensions), and \<^verbatim>\<open>+\<close> is not defined on
  sets: the expression raises TypeError whatever the sets hold.
\<close>

definition set_plus :: "string list \<Rightarrow> string list \<Rightarrow> error + string list" where
  "set_plus a b = Inl TypeError"

text \<open>The loop of \<^verbatim>\<open>execute_dependent_updates\<close> that builds the records to update, for a
  given value \<open>lookup_fields\<close> of \<^verbatim>\<open>all_lookups\<close>.\<close>

definition records_to_update ::
  "step \<Rightarrow> load_state \<Rightarrow> string list \<Rightarrow> row list \<Rightarrow> error + row list" where
  "records_to_update step st lookup_fields reader =
     map_err (\<lambda>record.
        case populate_lookups step st record lookup_fields of
          Inl e \<Rightarrow> Inl e
        | Inr populated \<Rightarrow> Inr (filter (\<lambda>(k, v). k \<in> set lookup_fields) populated)) reader"

fun check_update_results ::
  "string \<Rightarrow> row list \<Rightarrow> nat \<Rightarrow> bulk_result list \<Rightarrow> error option" where
  "check_update_results s records_to_load i [] = None"
| "check_update_results s records_to_load i (r # rs) =
     (if \<not> success r
      then (case (if i < length records_to_load then row_get (records_to_load ! i) ''Id''
                  else Inl IndexError) of
              Inl e \<Rightarrow> Some e
            | Inr old \<Rightarrow>
                Some (Exception [''Failed to execute dependent updates for {} {}'', s, py_str old]))
      else check_update_results s records_to_load (Suc i) rs)"

definition execute_dependent_updates ::
  "step \<Rightarrow> lookups \<Rightarrow> load_operation \<Rightarrow> load_state \<Rightarrow> error option \<times> load_state" where
  "execute_dependent_updates step lk ctx st =
     (case input_files ctx (sobjectname step) of
        None \<Rightarrow> (Some KeyError, st)
      | Some reader \<Rightarrow>
          (case set_plus (dependent_lookups lk) (self_lookups lk) of
             Inl e \<Rightarrow> (Some e, st)
           | Inr lookup_fields \<Rightarrow>
               (case records_to_update step st lookup_fields reader of
                  Inl e \<Rightarrow> (Some e, st)
                | Inr records_to_load \<Rightarrow>
                    (check_update_results (sobjectname step) records_to_load 0
                       (bulk_update ctx (calls st) (sobjectname step) records_to_load),
                     st\<lparr>calls := calls st @ [Update (sobjectname step) records_to_load]\<rparr>))))"

text \<open>
  The first loop of \<^verbatim>\<open>LoadOperation.execute\<close>: \<^verbatim>\<open>scan_fields\<close> and \<^verbatim>\<open>execute\<close> for every
  step in order.  The lookups \<^verbatim>\<open>scan_fields\<close> stores on a step are returned with the step.
\<close>

fun insert_phase ::
  "load_operation \<Rightarrow> step list \<Rightarrow> load_state
     \<Rightarrow> (error option \<times> load_state) \<times> (step \<times> lookups) list" where
  "insert_phase ctx [] st = ((None, st), [])"
| "insert_phase ctx (s # ss) st =
     (case scan_fields (field_maps ctx (sobjectname s)) (sobject_list ctx)
             (sobjectname s) (field_scope s) of
        Inl e \<Rightarrow> ((Some e, st), [])
      | Inr lk \<Rightarrow>
          (case LoadStep_execute s lk ctx st of
             (Some e, st') \<Rightarrow> ((Some e, st'), [(s, lk)])
           | (None, st') \<Rightarrow>
               (case insert_phase ctx ss st' of
                  (r, scanned) \<Rightarrow> (r, (s, lk) # scanned))))"

definition LoadOperation_execute ::
  "load_operation \<Rightarrow> step list \<Rightarrow> load_state \<Rightarrow> error option \<times> load_state" where
  "LoadOperation_execute ctx steps st =
     (let c = ctx\<lparr>sobject_list := map sobjectname steps\<rparr>
      in case insert_phase c steps st of
           ((Some e, st1), scanned) \<Rightarrow> (Some e, st1)
         | ((None, st1), scanned) \<Rightarrow>
             for_each (\<lambda>(s, lk). execute_dependent_updates s lk c) scanned st1)"

section \<open>Example: outside lookups\<close>


definition empty_load_state :: load_state where
  "empty_load_state = \<lparr>global_id_map = Map.empty, calls = []\<rparr>"










section \<open>Example: loading two accounts that refer to each other\<close>

text \<open>
  Two accounts, each the parent of the other by its old identifier, loaded in one step;
  the store accepts both inserts (\<open>accepting_store\<close>), rejects the first
  (\<open>rejecting_store\<close>), or is given the same record twice (\<open>twice_operation\<close>).
\<close>

definition load_account_fields :: field_map where
  "load_account_fields =
     [''Id'' \<mapsto> \<lparr>ftype = ''id'', referenceTo = [], soapType = ''tns:ID''\<rparr>,
      ''Name'' \<mapsto> \<lparr>ftype = ''string'', referenceTo = [], soapType = ''xsd:string''\<rparr>,
      ''ParentId'' \<mapsto> \<lparr>ftype = ''reference'', referenceTo = [''Account''], soapType = ''tns:ID''\<rparr>]"

definition account_X :: row where
  "account_X = [(''Id'', Some ''001000000000000''), (''Name'', Some ''Test''),
                (''ParentId'', Some ''001000000000001'')]"

definition account_Y :: row where
  "account_Y = [(''Id'', Some ''001000000000001''), (''Name'', Some ''Test 2''),
                (''ParentId'', Some ''001000000000000'')]"

definition accepting_store :: "bulk_call list \<Rightarrow> string \<Rightarrow> row list \<Rightarrow> bulk_result list" where
  "accepting_store cs s rs =
     [\<lparr>success = True, result_id = Some ''001000000000002''\<rparr>,
      \<lparr>success = True, result_id = Some ''001000000000003''\<rparr>]"

definition rejecting_store :: "bulk_call list \<Rightarrow> string \<Rightarrow> row list \<Rightarrow> bulk_result list" where
  "rejecting_store cs s rs =
     [\<lparr>success = False, result_id = None\<rparr>,
      \<lparr>success = True, result_id = Some ''001000000000003''\<rparr>]"

definition circular_operation :: load_operation where
  "circular_operation =
     \<lparr>sobject_list = [''Account''],
      field_maps = (\<lambda>s. if s = ''Account'' then load_account_fields else Map.empty),
      mappers = Map.empty,
      input_files = [''Account'' \<mapsto> [account_X, account_Y]],
      bulk_insert = accepting_store,
      bulk_update = accepting_store\<rparr>"

definition rejected_operation :: load_operation where
  "rejected_operation = circular_operation\<lparr>bulk_insert := rejecting_store\<rparr>"

definition twice_operation :: load_operation where
  "twice_operation = circular_operation\<lparr>input_files := [''Account'' \<mapsto> [account_X, account_X]]\<rparr>"

definition load_account_step :: step where
  "load_account_step =
     \<lparr>sobjectname = ''Account'', field_scope = [''Name'', ''ParentId''],
      outside_lookup_behavior = INCLUDE, lookup_behaviors = Map.empty\<rparr>"

definition load_account_lookups :: lookups where
  "load_account_lookups =
     \<lparr>all_lookups = [''ParentId''], self_lookups = [''ParentId''],
      descendent_lookups = [], dependent_lookups = []\<rparr>"

text \<open>The queries of a pass: one per chunk, in the order of the chunks.\<close>

definition chunk_queries :: "extraction_step \<Rightarrow> string \<Rightarrow> salesforce_id list \<Rightarrow> string list" where
  "chunk_queries step id_field id_set =
     map (\<lambda>(id_list, taken).
            id_query (get_field_list (field_scope step)) (sobjectname step) id_field id_list)
       (id_chunks (max_len (field_scope step)) id_set)"

section \<open>Example: a pass in three chunks\<close>

text \<open>
  A step for Account with \<^verbatim>\<open>Id\<close> and 302 custom fields in its field scope: the field
  list has 3928 characters, which leaves room for two identifiers in a chunk.  The pass
  asks for five accounts, and the store knows none of them.
\<close>

definition custom_field :: "nat \<Rightarrow> string" where
  "custom_field n =
     ''Field'' @ [char_of (48 + n div 100), char_of (48 + n div 10 mod 10), char_of (48 + n mod 10)]
       @ ''__c''"

definition wide_step :: extraction_step where
  "wide_step =
     \<lparr>sobjectname = ''Account'', field_scope = ''Id'' # map custom_field [0..<302],
      outside_lookup_behavior = INCLUDE, lookup_behaviors = Map.empty,
      scope = SELECTED_RECORDS, where_clause = None, self_lookup_behavior = TRACE_NONE\<rparr>"

definition five_ids :: "salesforce_id list" where
  "five_ids =
     [SalesforceId ''001000000000001AAA'', SalesforceId ''001000000000002AAA'',
      SalesforceId ''001000000000003AAA'', SalesforceId ''001000000000004AAA'',
      SalesforceId ''001000000000005AAA'']"

definition no_lookups :: lookups where
  "no_lookups = \<lparr>all_lookups = [], self_lookups = [], descendent_lookups = [],
                  dependent_lookups = []\<rparr>"

definition empty_store :: extract_operation where
  "empty_store =
     \<lparr>sobject_list = [''Account''], field_maps = (\<lambda>s. Map.empty), mappers = Map.empty,
      key_prefix_map = Map.empty, query_all = (\<lambda>q. []), bulk_query = (\<lambda>s q. [])\<rparr>"

definition no_calls :: extract_state where
  "no_calls =
     \<lparr>required_ids = Map.empty, extracted_ids = Map.empty, output_files = Map.empty,
      query_all_calls = []\<rparr>"

section \<open>Properties of SalesforceId\<close>

lemma baseTwo_less_32: "baseTwo idstr i < 32"
  by (simp add: baseTwo_def upt_rec)



text \<open>
  C10.  Comparing an identifier with a string whose length is neither 15 nor 18 raises
  ValueError (it does not return False); comparing it with a value that is neither a
  string nor an identifier returns False.
\<close>

theorem salesforce_id_eq_bad_operand:
  "(length s \<noteq> 15 \<and> length s \<noteq> 18 \<longrightarrow> SalesforceId_eq self (PStr s) = Inl ValueError)
   \<and> ((\<forall>t. other \<noteq> PStr t) \<and> (\<forall>i. other \<noteq> PId i) \<longrightarrow> SalesforceId_eq self other = Inr False)"
  by (cases other) auto

theorem salesforce_id_eq_bad_operand_witness:
  "length ''abc'' \<noteq> 15 \<and> length ''abc'' \<noteq> 18
   \<and> SalesforceId_eq (SalesforceId ''001000000000000AAA'') (PStr ''abc'') = Inl ValueError
   \<and> (\<forall>t. PNone \<noteq> PStr t) \<and> (\<forall>i. PNone \<noteq> PId i)
   \<and> SalesforceId_eq (SalesforceId ''001000000000000AAA'') PNone = Inr False"
  using salesforce_id_eq_bad_operand [of "''abc''" "SalesforceId ''001000000000000AAA''" PNone]
  by simp

section \<open>Properties of the lookup classification\<close>

lemma filter_err_Inr:
  "filter_err p xs = Inr ys \<Longrightarrow> ys = filter (\<lambda>x. p x = Inr True) xs"
  by (induction xs arbitrary: ys) (auto split: sum.splits if_splits)

lemma filter_err_total:
  "filter_err p xs = Inr ys \<Longrightarrow> x \<in> set xs \<Longrightarrow> \<exists>b. p x = Inr b"
  by (induction xs arbitrary: ys) (auto split: sum.splits)

lemma map_err_total:
  "map_err f xs = Inr ys \<Longrightarrow> x \<in> set xs \<Longrightarrow> \<exists>y. f x = Inr y"
  by (induction xs arbitrary: ys) (auto split: sum.splits)

lemma map_err_Inr:
  "map_err f xs = Inr ys \<Longrightarrow> list_all2 (\<lambda>x y. f x = Inr y) xs ys"
  by (induction xs arbitrary: ys) (auto split: sum.splits)

lemma index_of_mem: "(\<exists>i. index_of xs x = Inr i) \<longleftrightarrow> x \<in> set xs"
  by (induction xs) (auto split: sum.splits)

lemma index_of_inj:
  "index_of xs x = Inr i \<Longrightarrow> index_of xs y = Inr i \<Longrightarrow> x = y"
  by (induction xs arbitrary: i) (auto split: sum.splits if_splits)

lemma list_ex_id_all2:
  "list_all2 (\<lambda>x y. f x = Inr y) xs bs \<Longrightarrow> list_ex (\<lambda>b. b) bs \<longleftrightarrow> (\<exists>x \<in> set xs. f x = Inr True)"
  by (induction xs bs rule: list_all2_induct) auto

lemma any_target_True:
  "any_target cmp fm sobjects sname f = Inr True \<longleftrightarrow>
     (\<exists>d j. fm f = Some d \<and> index_of sobjects sname = Inr j \<and>
        (\<exists>t \<in> set (referenceTo d). \<exists>i. index_of sobjects t = Inr i \<and> cmp i j))"
proof
  assume a: "any_target cmp fm sobjects sname f = Inr True"
  then obtain d bs where d: "fm f = Some d"
    and m: "map_err (compare_index cmp sobjects sname)
              (filter (\<lambda>refTo. refTo \<in> set sobjects) (referenceTo d)) = Inr bs"
    and ex: "list_ex (\<lambda>b. b) bs"
    by (auto simp: any_target_def split: option.splits sum.splits)
  from list_ex_id_all2 [OF map_err_Inr [OF m]] ex
  obtain t where t: "t \<in> set (referenceTo d)" "t \<in> set sobjects"
    and c: "compare_index cmp sobjects sname t = Inr True"
    by auto
  from c obtain i j where "index_of sobjects t = Inr i" "index_of sobjects sname = Inr j" "cmp i j"
    by (auto simp: compare_index_def split: sum.splits)
  with d t show "\<exists>d j. fm f = Some d \<and> index_of sobjects sname = Inr j \<and>
        (\<exists>t \<in> set (referenceTo d). \<exists>i. index_of sobjects t = Inr i \<and> cmp i j)"
    by blast
next
  assume "\<exists>d j. fm f = Some d \<and> index_of sobjects sname = Inr j \<and>
        (\<exists>t \<in> set (referenceTo d). \<exists>i. index_of sobjects t = Inr i \<and> cmp i j)"
  then obtain d j t i where d: "fm f = Some d" and j: "index_of sobjects sname = Inr j"
    and t: "t \<in> set (referenceTo d)" and i: "index_of sobjects t = Inr i" and c: "cmp i j"
    by blast
  have tot: "\<forall>x \<in> set xs. x \<in> set sobjects \<Longrightarrow>
        \<exists>bs. map_err (compare_index cmp sobjects sname) xs = Inr bs" for xs
  proof (induction xs)
    case Nil then show ?case by simp
  next
    case (Cons x xs)
    then obtain k where "index_of sobjects x = Inr k" using index_of_mem [of sobjects x] by auto
    with Cons j show ?case by (auto simp: compare_index_def)
  qed
  then obtain bs where m: "map_err (compare_index cmp sobjects sname)
              (filter (\<lambda>refTo. refTo \<in> set sobjects) (referenceTo d)) = Inr bs"
    by fastforce
  have ts: "t \<in> set sobjects" using i index_of_mem [of sobjects t] by auto
  have "compare_index cmp sobjects sname t = Inr True"
    using i j c by (simp add: compare_index_def)
  with list_ex_id_all2 [OF map_err_Inr [OF m]] t ts have "list_ex (\<lambda>b. b) bs" by auto
  with d m show "any_target cmp fm sobjects sname f = Inr True"
    by (simp add: any_target_def)
qed

lemma scan_fields_sets:
  assumes "scan_fields fm sobjects sname fscope = Inr cls"
  shows "set (all_lookups cls) = {f \<in> set fscope. is_lookup fm sobjects f = Inr True}"
    and "set (self_lookups cls) = {f \<in> set (all_lookups cls). is_self_lookup fm sname f = Inr True}"
    and "set (descendent_lookups cls) = {f \<in> set (all_lookups cls). any_target (<) fm sobjects sname f = Inr True}"
    and "set (dependent_lookups cls) = {f \<in> set (all_lookups cls). any_target (>) fm sobjects sname f = Inr True}"
  using assms
  by (auto simp: scan_fields_def split: sum.splits dest!: filter_err_Inr)


text \<open>
  C5.  Let \<open>f\<close> be a reference field in the field scope with at least one target
  type in the operation.  If every in-operation target is strictly earlier than the
  owning type in the declared order, \<open>f\<close> is a descendent lookup and nothing else; if
  every one is strictly later, a dependent lookup and nothing else; if every one is at
  the owning type's position, a self lookup and nothing else.  A field that is in two of
  the three sets has two different in-operation target types.
\<close>

theorem scan_fields_classification:
  assumes scan: "scan_fields fm sobjects sname fscope = Inr cls"
    and scope: "f \<in> set fscope"
    and desc: "fm f = Some d"
    and ref: "ftype d = ''reference''"
    and target: "\<exists>t \<in> set (referenceTo d). t \<in> set sobjects"
  shows "\<exists>j. index_of sobjects sname = Inr j
     \<and> ((\<forall>t \<in> set (referenceTo d). \<forall>i. index_of sobjects t = Inr i \<longrightarrow> i < j) \<longrightarrow>
          f \<in> set (descendent_lookups cls) \<and> f \<notin> set (dependent_lookups cls)
          \<and> f \<notin> set (self_lookups cls))
     \<and> ((\<forall>t \<in> set (referenceTo d). \<forall>i. index_of sobjects t = Inr i \<longrightarrow> j < i) \<longrightarrow>
          f \<in> set (dependent_lookups cls) \<and> f \<notin> set (descendent_lookups cls)
          \<and> f \<notin> set (self_lookups cls))
     \<and> ((\<forall>t \<in> set (referenceTo d). \<forall>i. index_of sobjects t = Inr i \<longrightarrow> i = j) \<longrightarrow>
          f \<in> set (self_lookups cls) \<and> f \<notin> set (descendent_lookups cls)
          \<and> f \<notin> set (dependent_lookups cls))
     \<and> ((f \<in> set (self_lookups cls) \<and> f \<in> set (descendent_lookups cls))
          \<or> (f \<in> set (self_lookups cls) \<and> f \<in> set (dependent_lookups cls))
          \<or> (f \<in> set (descendent_lookups cls) \<and> f \<in> set (dependent_lookups cls)) \<longrightarrow>
          (\<exists>t1 \<in> set (referenceTo d). \<exists>t2 \<in> set (referenceTo d).
             t1 \<in> set sobjects \<and> t2 \<in> set sobjects \<and> t1 \<noteq> t2))"
proof -
  note sets = scan_fields_sets [OF scan]
  have fall: "f \<in> set (all_lookups cls)"
    using scope desc ref target by (auto simp: sets(1) is_lookup_def list_ex_iff)
  have "\<exists>b. any_target (<) fm sobjects sname f = Inr b"
  proof -
    from scan obtain al desc where
      al: "filter_err (is_lookup fm sobjects) fscope = Inr al"
      and de: "filter_err (any_target (<) fm sobjects sname) (remdups al) = Inr desc"
      by (auto simp: scan_fields_def split: sum.splits)
    from scan al have "all_lookups cls = remdups al"
      by (auto simp: scan_fields_def split: sum.splits)
    with fall have "f \<in> set (remdups al)" by simp
    from filter_err_total [OF de this] show ?thesis .
  qed
  then obtain b where b: "any_target (<) fm sobjects sname f = Inr b" ..
  from target obtain t0 where t0m: "t0 \<in> set (referenceTo d)" "t0 \<in> set sobjects" by blast
  from b desc obtain bs where m: "map_err (compare_index (<) sobjects sname)
         (filter (\<lambda>refTo. refTo \<in> set sobjects) (referenceTo d)) = Inr bs"
    by (auto simp: any_target_def split: sum.splits)
  from t0m have "t0 \<in> set (filter (\<lambda>refTo. refTo \<in> set sobjects) (referenceTo d))" by simp
  from map_err_total [OF m this] obtain j where j: "index_of sobjects sname = Inr j"
    by (auto simp: compare_index_def split: sum.splits)
  have self_iff: "f \<in> set (self_lookups cls) \<longleftrightarrow> sname \<in> set (referenceTo d)"
    using fall desc by (auto simp: sets(2) is_self_lookup_def)
  have desc_iff: "f \<in> set (descendent_lookups cls) \<longleftrightarrow>
      (\<exists>t \<in> set (referenceTo d). \<exists>i. index_of sobjects t = Inr i \<and> i < j)"
    using fall desc j by (auto simp: sets(3) any_target_True)
  have dep_iff: "f \<in> set (dependent_lookups cls) \<longleftrightarrow>
      (\<exists>t \<in> set (referenceTo d). \<exists>i. index_of sobjects t = Inr i \<and> j < i)"
    using fall desc j by (auto simp: sets(4) any_target_True)
  from target obtain t0 i0 where t0: "t0 \<in> set (referenceTo d)" "index_of sobjects t0 = Inr i0"
    using index_of_mem [of sobjects] by blast
  have mem: "index_of sobjects t = Inr i \<Longrightarrow> t \<in> set sobjects" for t i
    using index_of_mem [of sobjects t] by blast
  have A: "(\<forall>t \<in> set (referenceTo d). \<forall>i. index_of sobjects t = Inr i \<longrightarrow> i < j) \<longrightarrow>
          f \<in> set (descendent_lookups cls) \<and> f \<notin> set (dependent_lookups cls)
          \<and> f \<notin> set (self_lookups cls)"
  proof
    assume all: "\<forall>t \<in> set (referenceTo d). \<forall>i. index_of sobjects t = Inr i \<longrightarrow> i < j"
    from all t0 have "i0 < j" by blast
    with t0 have 1: "f \<in> set (descendent_lookups cls)" unfolding desc_iff by blast
    have 2: "f \<notin> set (dependent_lookups cls)" unfolding dep_iff
    proof
      assume "\<exists>t \<in> set (referenceTo d). \<exists>i. index_of sobjects t = Inr i \<and> j < i"
      then obtain t i where "t \<in> set (referenceTo d)" "index_of sobjects t = Inr i" "j < i" by blast
      with all have "i < j" "j < i" by blast+
      then show False by simp
    qed
    have 3: "f \<notin> set (self_lookups cls)" unfolding self_iff
    proof
      assume "sname \<in> set (referenceTo d)"
      with all j have "j < j" by blast
      then show False by simp
    qed
    from 1 2 3 show "f \<in> set (descendent_lookups cls) \<and> f \<notin> set (dependent_lookups cls)
          \<and> f \<notin> set (self_lookups cls)" by simp
  qed
  have B: "(\<forall>t \<in> set (referenceTo d). \<forall>i. index_of sobjects t = Inr i \<longrightarrow> j < i) \<longrightarrow>
          f \<in> set (dependent_lookups cls) \<and> f \<notin> set (descendent_lookups cls)
          \<and> f \<notin> set (self_lookups cls)"
  proof
    assume all: "\<forall>t \<in> set (referenceTo d). \<forall>i. index_of sobjects t = Inr i \<longrightarrow> j < i"
    from all t0 have "j < i0" by blast
    with t0 have 1: "f \<in> set (dependent_lookups cls)" unfolding dep_iff by blast
    have 2: "f \<notin> set (descendent_lookups cls)" unfolding desc_iff
    proof
      assume "\<exists>t \<in> set (referenceTo d). \<exists>i. index_of sobjects t = Inr i \<and> i < j"
      then obtain t i where "t \<in> set (referenceTo d)" "index_of sobjects t = Inr i" "i < j" by blast
      with all have "i < j" "j < i" by blast+
      then show False by simp
    qed
    have 3: "f \<notin> set (self_lookups cls)" unfolding self_iff
    proof
      assume "sname \<in> set (referenceTo d)"
      with all j have "j < j" by blast
      then show False by simp
    qed
    from 1 2 3 show "f \<in> set (dependent_lookups cls) \<and> f \<notin> set (descendent_lookups cls)
          \<and> f \<notin> set (self_lookups cls)" by simp
  qed
  have C: "(\<forall>t \<in> set (referenceTo d). \<forall>i. index_of sobjects t = Inr i \<longrightarrow> i = j) \<longrightarrow>
          f \<in> set (self_lookups cls) \<and> f \<notin> set (descendent_lookups cls)
          \<and> f \<notin> set (dependent_lookups cls)"
  proof
    assume all: "\<forall>t \<in> set (referenceTo d). \<forall>i. index_of sobjects t = Inr i \<longrightarrow> i = j"
    from all t0 have "i0 = j" by blast
    with t0 j have "t0 = sname" using index_of_inj [of sobjects t0 j sname] by simp
    with t0 have 1: "f \<in> set (self_lookups cls)" unfolding self_iff by simp
    have 2: "f \<notin> set (descendent_lookups cls)" unfolding desc_iff
    proof
      assume "\<exists>t \<in> set (referenceTo d). \<exists>i. index_of sobjects t = Inr i \<and> i < j"
      then obtain t i where "t \<in> set (referenceTo d)" "index_of sobjects t = Inr i" "i < j" by blast
      with all have "i = j" "i < j" by blast+
      then show False by simp
    qed
    have 3: "f \<notin> set (dependent_lookups cls)" unfolding dep_iff
    proof
      assume "\<exists>t \<in> set (referenceTo d). \<exists>i. index_of sobjects t = Inr i \<and> j < i"
      then obtain t i where "t \<in> set (referenceTo d)" "index_of sobjects t = Inr i" "j < i" by blast
      with all have "i = j" "j < i" by blast+
      then show False by simp
    qed
    from 1 2 3 show "f \<in> set (self_lookups cls) \<and> f \<notin> set (descendent_lookups cls)
          \<and> f \<notin> set (dependent_lookups cls)" by simp
  qed
  have two: "t \<in> set (referenceTo d) \<Longrightarrow> t' \<in> set (referenceTo d) \<Longrightarrow>
      index_of sobjects t = Inr i \<Longrightarrow> index_of sobjects t' = Inr i' \<Longrightarrow> i \<noteq> i' \<Longrightarrow>
      \<exists>t1 \<in> set (referenceTo d). \<exists>t2 \<in> set (referenceTo d).
             t1 \<in> set sobjects \<and> t2 \<in> set sobjects \<and> t1 \<noteq> t2" for t t' i i'
  proof -
    assume h: "t \<in> set (referenceTo d)" "t' \<in> set (referenceTo d)"
      "index_of sobjects t = Inr i" "index_of sobjects t' = Inr i'" "i \<noteq> i'"
    then have "t \<noteq> t'" by auto
    moreover have "t \<in> set sobjects" "t' \<in> set sobjects" using h mem by blast+
    ultimately show ?thesis using h(1,2) by blast
  qed
  have D: "(f \<in> set (self_lookups cls) \<and> f \<in> set (descendent_lookups cls))
          \<or> (f \<in> set (self_lookups cls) \<and> f \<in> set (dependent_lookups cls))
          \<or> (f \<in> set (descendent_lookups cls) \<and> f \<in> set (dependent_lookups cls)) \<longrightarrow>
          (\<exists>t1 \<in> set (referenceTo d). \<exists>t2 \<in> set (referenceTo d).
             t1 \<in> set sobjects \<and> t2 \<in> set sobjects \<and> t1 \<noteq> t2)"
    unfolding self_iff desc_iff dep_iff
  proof (intro impI, elim disjE conjE bexE exE)
    fix t i assume "sname \<in> set (referenceTo d)" "t \<in> set (referenceTo d)"
      "index_of sobjects t = Inr i" "i < j"
    then show "\<exists>t1 \<in> set (referenceTo d). \<exists>t2 \<in> set (referenceTo d).
             t1 \<in> set sobjects \<and> t2 \<in> set sobjects \<and> t1 \<noteq> t2"
      using two [of t sname i j] j by simp
  next
    fix t i assume "sname \<in> set (referenceTo d)" "t \<in> set (referenceTo d)"
      "index_of sobjects t = Inr i" "j < i"
    then show "\<exists>t1 \<in> set (referenceTo d). \<exists>t2 \<in> set (referenceTo d).
             t1 \<in> set sobjects \<and> t2 \<in> set sobjects \<and> t1 \<noteq> t2"
      using two [of t sname i j] j by simp
  next
    fix t i t' i' assume "t \<in> set (referenceTo d)" "index_of sobjects t = Inr i" "i < j"
      "t' \<in> set (referenceTo d)" "index_of sobjects t' = Inr i'" "j < i'"
    then show "\<exists>t1 \<in> set (referenceTo d). \<exists>t2 \<in> set (referenceTo d).
             t1 \<in> set sobjects \<and> t2 \<in> set sobjects \<and> t1 \<noteq> t2"
      using two [of t t' i i'] by simp
  qed
  from j A B C D show ?thesis by blast
qed


theorem scan_fields_classification_witness:
  "scan_fields example_contact_fields [''Account'', ''Contact'', ''Case''] ''Contact''
      [''Name'', ''AccountId'', ''ReportsToId'', ''Case__c'', ''OwnerId'']
     = Inr \<lparr>all_lookups = [''AccountId'', ''ReportsToId'', ''Case__c''],
            self_lookups = [''ReportsToId''],
            descendent_lookups = [''AccountId''],
            dependent_lookups = [''Case__c'']\<rparr>
   \<and> example_contact_fields ''AccountId''
       = Some \<lparr>ftype = ''reference'', referenceTo = [''Account''], soapType = ''tns:ID''\<rparr>
   \<and> index_of [''Account'', ''Contact'', ''Case''] ''Contact'' = Inr 1
   \<and> index_of [''Account'', ''Contact'', ''Case''] ''Account'' = Inr 0
   \<and> ''AccountId'' \<in> set [''AccountId'']
   \<and> ''AccountId'' \<notin> set [''Case__c'']
   \<and> ''AccountId'' \<notin> set [''ReportsToId'']"
  using scan_fields_classification
    [of example_contact_fields "[''Account'', ''Contact'', ''Case'']" "''Contact''"
        "[''Name'', ''AccountId'', ''ReportsToId'', ''Case__c'', ''OwnerId'']"
        "\<lparr>all_lookups = [''AccountId'', ''ReportsToId'', ''Case__c''],
            self_lookups = [''ReportsToId''],
            descendent_lookups = [''AccountId''],
            dependent_lookups = [''Case__c'']\<rparr>"
        "''AccountId''"
        "\<lparr>ftype = ''reference'', referenceTo = [''Account''], soapType = ''tns:ID''\<rparr>"]
  by (simp add: scan_fields_def example_contact_fields_def is_lookup_def is_self_lookup_def
      any_target_def compare_index_def)

section \<open>Properties of the chunks\<close>

text \<open>The fields \<^verbatim>\<open>perform_lookup_pass\<close> is called with, the self and the descendent
  lookups of the step, are fields of its field scope.\<close>

lemma scan_fields_within_scope:
  assumes "scan_fields fm sobjects sname fscope = Inr cls"
  shows "set (self_lookups cls) \<subseteq> set fscope"
    and "set (descendent_lookups cls) \<subseteq> set fscope"
    and "set (dependent_lookups cls) \<subseteq> set fscope"
  using scan_fields_sets [OF assms] by auto

lemma fill_chunk_taken:
  "fill_chunk ml id_list taken ids = ((s, tk), rest) \<Longrightarrow> tk @ rest = taken @ ids"
  by (induction ids arbitrary: id_list taken) (auto split: if_splits)

lemma id_chunks_concat: "concat (map snd (id_chunks ml ids)) = ids"
proof (induction ml ids rule: id_chunks.induct)
  case (1 ml)
  then show ?case by simp
next
  case (2 ml i ids)
  obtain s tk rest where f: "fill_chunk ml (quote @ SalesforceId_str i @ quote) [i] ids = ((s, tk), rest)"
    by (metis prod.exhaust)
  from fill_chunk_taken [OF f] have "tk @ rest = i # ids" by simp
  moreover from 2 [of "(s, tk)" rest] f
  have "concat (map snd (id_chunks ml rest)) = rest" by simp
  ultimately show ?case using f by simp
qed



lemma join_with_snoc:
  "xs \<noteq> [] \<Longrightarrow> join_with sep (xs @ [x]) = join_with sep xs @ sep @ x"
  by (induction sep xs rule: join_with.induct) auto

lemma length_join_with_mem: "x \<in> set xs \<Longrightarrow> length x \<le> length (join_with sep xs)"
  by (induction sep xs rule: join_with.induct) auto

lemma length_quoted: "length (sid i) = 18 \<Longrightarrow> length (quoted i) = 20"
  by (simp add: quoted_def quote_def SalesforceId_str_def)

lemma fill_chunk_props:
  assumes "fill_chunk ml id_list taken ids = ((s, tk), rest)"
    and "\<forall>i \<in> set ids. length (sid i) = 18"
    and "taken \<noteq> []"
    and "id_list = join_with '', '' (map quoted taken)"
    and "length id_list + 2 = 22 * length taken"
  shows "tk \<noteq> [] \<and> s = join_with '', '' (map quoted tk)
         \<and> length s + 2 = 22 * length tk
         \<and> ((s, tk) = (id_list, taken) \<or> int (length s) < ml)"
  using assms
proof (induction ids arbitrary: id_list taken)
  case Nil
  then show ?case by auto
next
  case (Cons i ids)
  show ?case
  proof (cases "int (length id_list) < ml - 22")
    case False
    with Cons.prems show ?thesis by auto
  next
    case True
    let ?l = "id_list @ '', '' @ quote @ SalesforceId_str i @ quote"
    have f: "fill_chunk ml ?l (taken @ [i]) ids = ((s, tk), rest)"
      using Cons.prems(1) True by simp
    have "?l = id_list @ '', '' @ quoted i" by (simp add: quoted_def)
    then have l: "?l = join_with '', '' (map quoted (taken @ [i]))"
      using Cons.prems(3,4) by (simp add: join_with_snoc)
    have len: "length ?l + 2 = 22 * length (taken @ [i])"
      using Cons.prems(2,5) by (simp add: quote_def SalesforceId_str_def)
    have i18: "\<forall>i \<in> set ids. length (sid i) = 18" using Cons.prems(2) by simp
    have ne: "taken @ [i] \<noteq> []" by simp
    note IH = Cons.IH [OF f i18 ne l len]
    have "int (length ?l) < ml"
      using True Cons.prems(2) by (simp add: quote_def SalesforceId_str_def)
    with IH show ?thesis by auto
  qed
qed

lemma id_chunks_props:
  assumes "\<forall>i \<in> set ids. length (sid i) = 18"
    and "(s, tk) \<in> set (id_chunks ml ids)"
  shows "tk \<noteq> [] \<and> s = join_with '', '' (map quoted tk)
         \<and> length s + 2 = 22 * length tk
         \<and> (length tk = 1 \<or> int (length s) < ml)"
  using assms
proof (induction ml ids rule: id_chunks.induct)
  case (1 ml)
  then show ?case by simp
next
  case (2 ml i ids)
  obtain s' tk' rest where f: "fill_chunk ml (quote @ SalesforceId_str i @ quote) [i] ids = ((s', tk'), rest)"
    by (metis prod.exhaust)
  from fill_chunk_taken [OF f] have r: "tk' @ rest = i # ids" by simp
  then have "set rest \<subseteq> set (i # ids)" by (metis set_append Un_upper2)
  with 2(2) have rest18: "\<forall>i \<in> set rest. length (sid i) = 18" by blast
  have p: "tk' \<noteq> [] \<and> s' = join_with '', '' (map quoted tk')
         \<and> length s' + 2 = 22 * length tk'
         \<and> ((s', tk') = (quote @ SalesforceId_str i @ quote, [i]) \<or> int (length s') < ml)"
  proof -
    have "[i] \<noteq> []" by simp
    moreover have "quote @ SalesforceId_str i @ quote = join_with '', '' (map quoted [i])"
      by (simp add: quoted_def)
    moreover have "length (quote @ SalesforceId_str i @ quote) + 2 = 22 * length [i]"
      using 2(2) by (simp add: quote_def SalesforceId_str_def)
    moreover have "\<forall>i \<in> set ids. length (sid i) = 18" using 2(2) by simp
    ultimately show ?thesis using fill_chunk_props [OF f] by blast
  qed
  from 2(3) f have "(s, tk) = (s', tk') \<or> (s, tk) \<in> set (id_chunks ml rest)" by simp
  then show ?case
  proof
    assume "(s, tk) = (s', tk')"
    with p show ?thesis by auto
  next
    assume "(s, tk) \<in> set (id_chunks ml rest)"
    with 2(1) [of "(s', tk')" rest] f rest18 show ?thesis by auto
  qed
qed

lemma length_where_in_clause:
  "length (where_in_clause id_field id_list) = 12 + length id_field + length id_list"
  by (simp add: where_in_clause_def)

lemma max_len_eq: "max_len fscope = 3988 - int (length (get_field_list fscope))"
  by (simp add: max_len_def)

text \<open>The chunks of a set of 18-character identifiers without duplicates hold every
  identifier exactly once, and every chunk's \<^verbatim>\<open>WHERE\<close> clause is shorter than 4000
  characters.\<close>

lemma chunks_cover_and_fit:
  assumes "\<forall>i \<in> set ids. length (sid i) = 18"
    and "distinct ids"
    and "id_field = ''Id'' \<or> id_field \<in> set fscope"
    and "length id_field < 3968"
  shows "concat (map snd (id_chunks (max_len fscope) ids)) = ids
     \<and> distinct (concat (map snd (id_chunks (max_len fscope) ids)))
     \<and> (ids \<noteq> [] \<longrightarrow> id_chunks (max_len fscope) ids \<noteq> [])
     \<and> (\<forall>(id_list, taken) \<in> set (id_chunks (max_len fscope) ids).
          taken \<noteq> []
          \<and> id_list = join_with '', '' (map (\<lambda>i. quote @ SalesforceId_str i @ quote) taken)
          \<and> length (where_in_clause id_field id_list) < 4000)"
proof -
  have cover: "concat (map snd (id_chunks (max_len fscope) ids)) = ids"
    by (rule id_chunks_concat)
  have ne: "ids \<noteq> [] \<longrightarrow> id_chunks (max_len fscope) ids \<noteq> []"
    using cover by auto
  have fit: "taken \<noteq> []
          \<and> id_list = join_with '', '' (map (\<lambda>i. quote @ SalesforceId_str i @ quote) taken)
          \<and> length (where_in_clause id_field id_list) < 4000"
    if m: "(id_list, taken) \<in> set (id_chunks (max_len fscope) ids)" for id_list taken
  proof -
    from id_chunks_props [OF assms(1) m]
    have p: "taken \<noteq> []" "id_list = join_with '', '' (map quoted taken)"
      "length id_list + 2 = 22 * length taken"
      "length taken = 1 \<or> int (length id_list) < max_len fscope"
      by blast+
    have q: "quoted = (\<lambda>i. quote @ SalesforceId_str i @ quote)"
      by (rule ext) (simp add: quoted_def)
    have "12 + length id_field + length id_list < 4000"
      using p(4)
    proof
      assume "length taken = 1"
      with p(3) have "length id_list = 20" by simp
      with assms(4) show ?thesis by simp
    next
      assume lt: "int (length id_list) < max_len fscope"
      from assms(3) show ?thesis
      proof
        assume "id_field \<in> set fscope"
        then have "length id_field \<le> length (get_field_list fscope)"
          by (simp add: get_field_list_def length_join_with_mem)
        with lt show ?thesis by (simp add: max_len_eq)
      next
        assume i: "id_field = ''Id''"
        from lt have "int (length id_list) < 3988" by (simp add: max_len_eq)
        with p(3) have "length id_list \<le> 3980" by presburger
        with i show ?thesis by simp
      qed
    qed
    with p(1,2) q show ?thesis by (simp add: length_where_in_clause)
  qed
  from cover assms(2) ne fit show ?thesis by auto
qed

text \<open>A property of the state that every run of the body keeps holds after the loop.\<close>

lemma for_each_invariant:
  assumes "\<And>x s. P s \<Longrightarrow> P (snd (body x s))" and "P st"
  shows "P (snd (for_each body xs st))"
  using assms(2)
proof (induction xs arbitrary: st)
  case Nil
  then show ?case by simp
next
  case (Cons x xs)
  obtain r st' where b: "body x st = (r, st')" by (cases "body x st")
  have 1: "P st'" using assms(1) [OF Cons.prems, of x] b by simp
  show ?case
  proof (cases r)
    case None
    with b Cons.IH [OF 1] show ?thesis by simp
  next
    case (Some e)
    with b 1 show ?thesis by simp
  qed
qed

text \<open>What a pass logs: the calls of \<^verbatim>\<open>connection.query_all\<close>.\<close>

lemma length_join_with:
  "xs \<noteq> [] \<Longrightarrow>
     length (join_with sep xs) + length sep = sum_list (map length xs) + length sep * length xs"
  by (induction sep xs rule: join_with.induct) auto

lemma length_custom_field: "length (custom_field n) = 11"
  by (simp add: custom_field_def)

lemma sum_list_const: "(\<And>x. x \<in> set xs \<Longrightarrow> f x = (c::nat)) \<Longrightarrow> sum_list (map f xs) = c * length xs"
  by (induction xs) auto

lemma wide_step_max_len: "max_len (field_scope wide_step) = 60"
proof -
  let ?fs = "''Id'' # map custom_field [0..<302]"
  have s: "sum_list (map length (map custom_field [0..<302])) = 11 * length [0..<(302::nat)]"
    unfolding map_map by (rule sum_list_const) (simp add: length_custom_field)
  have "length (join_with '', '' ?fs) + length '', '' = sum_list (map length ?fs) + length '', '' * length ?fs"
    by (rule length_join_with) simp
  then have "length (join_with '', '' ?fs) + 2 = (2 + 11 * 302) + 2 * 303"
    unfolding list.map sum_list.Cons s by (simp del: upt_rec_numeral map_map)
  then have "length (join_with '', '' ?fs) = 3928" by simp
  then have "length (get_field_list (field_scope wide_step)) = 3928"
    by (simp add: get_field_list_def wide_step_def del: upt_rec_numeral)
  then show ?thesis by (simp add: max_len_def)
qed

lemma five_chunks:
  "id_chunks 60 five_ids =
     [(quote @ ''001000000000001AAA'' @ quote @ '', '' @ quote @ ''001000000000002AAA'' @ quote,
       [SalesforceId ''001000000000001AAA'', SalesforceId ''001000000000002AAA'']),
      (quote @ ''001000000000003AAA'' @ quote @ '', '' @ quote @ ''001000000000004AAA'' @ quote,
       [SalesforceId ''001000000000003AAA'', SalesforceId ''001000000000004AAA'']),
      (quote @ ''001000000000005AAA'' @ quote, [SalesforceId ''001000000000005AAA''])]"
  by code_simp


lemma add_dependency_calls [simp]:
  "query_all_calls (add_dependency s i st) = query_all_calls st"
  by (simp add: add_dependency_def Let_def)

lemma ExtractOperation_store_result_calls:
  "query_all_calls (snd (ExtractOperation_store_result ctx s record st)) = query_all_calls st"
  by (auto simp: ExtractOperation_store_result_def Let_def split: sum.splits option.splits)

lemma register_self_lookup_calls:
  "query_all_calls (snd (register_self_lookup step result l st)) = query_all_calls st"
  by (auto simp: register_self_lookup_def split: sum.splits option.splits)

lemma register_dependent_lookup_calls:
  "query_all_calls (snd (register_dependent_lookup step ctx result f st)) = query_all_calls st"
  by (auto simp: register_dependent_lookup_def split: sum.splits option.splits)

lemma ExtractionStep_store_result_calls:
  "query_all_calls (snd (ExtractionStep_store_result step lk ctx result st)) = query_all_calls st"
proof -
  obtain r1 st1 where 1: "for_each (register_self_lookup step result) (self_lookups lk) st = (r1, st1)"
    by (metis prod.exhaust)
  have q1: "query_all_calls st1 = query_all_calls st"
    using for_each_invariant [of "\<lambda>s. query_all_calls s = query_all_calls st"
        "register_self_lookup step result" st "self_lookups lk"] 1
    by (simp add: register_self_lookup_calls)
  obtain r2 st2 where 2: "for_each (register_dependent_lookup step ctx result) (dependent_lookups lk) st1
      = (r2, st2)"
    by (metis prod.exhaust)
  have q2: "query_all_calls st2 = query_all_calls st"
    using for_each_invariant [of "\<lambda>s. query_all_calls s = query_all_calls st"
        "register_dependent_lookup step ctx result" st1 "dependent_lookups lk"] 2 q1
    by (simp add: register_dependent_lookup_calls)
  show ?thesis
    using 1 2 q1 q2
    by (auto simp: ExtractionStep_store_result_def ExtractOperation_store_result_calls
        split: option.splits sum.splits)
qed

lemma store_rows_calls:
  "query_all_calls (snd (for_each (ExtractionStep_store_result step lk ctx) rows st))
     = query_all_calls st"
  using for_each_invariant [of "\<lambda>s. query_all_calls s = query_all_calls st"
      "ExtractionStep_store_result step lk ctx" st rows]
  by (simp add: ExtractionStep_store_result_calls)

lemma chunk_loop_calls:
  fixes Q :: "string \<Rightarrow> string" and step :: extraction_step and lk :: lookups
    and ctx :: extract_operation
  defines "body \<equiv> (\<lambda>(id_list, taken :: salesforce_id list) st'.
             for_each (ExtractionStep_store_result step lk ctx) (query_all ctx (Q id_list))
               (st'\<lparr>query_all_calls := query_all_calls st' @ [Q id_list]\<rparr>))"
  shows "\<exists>n \<le> length cs. (cs \<noteq> [] \<longrightarrow> 1 \<le> n)
            \<and> query_all_calls (snd (for_each body cs st))
                = query_all_calls st @ take n (map (\<lambda>(id_list, taken). Q id_list) cs)
            \<and> (fst (for_each body cs st) = None \<longrightarrow> n = length cs)"
proof (induction cs arbitrary: st)
  case Nil
  show ?case by simp
next
  case (Cons c cs)
  obtain l t where c: "c = (l, t)" by (cases c)
  obtain r st1 where b: "body c st = (r, st1)" by (metis prod.exhaust)
  have q1: "query_all_calls st1 = query_all_calls st @ [Q l]"
    using b store_rows_calls [of step lk ctx "query_all ctx (Q l)"
        "st\<lparr>query_all_calls := query_all_calls st @ [Q l]\<rparr>"]
    by (simp add: body_def c)
  show ?case
  proof (cases r)
    case (Some e)
    with b have fe: "for_each body (c # cs) st = (Some e, st1)" by simp
    show ?thesis
      by (rule exI [of _ 1]) (use q1 c fe in simp)
  next
    case None
    with b have f: "for_each body (c # cs) st = for_each body cs st1" by simp
    from Cons.IH [of st1] obtain n where n: "n \<le> length cs"
      "query_all_calls (snd (for_each body cs st1))
                = query_all_calls st1 @ take n (map (\<lambda>(id_list, taken). Q id_list) cs)"
      "fst (for_each body cs st1) = None \<longrightarrow> n = length cs"
      by (elim exE conjE)
    show ?thesis
      by (rule exI [of _ "Suc n"]) (use n q1 c f in simp)
  qed
qed

lemma perform_id_field_pass_calls:
  "\<exists>n \<le> length (chunk_queries step id_field id_set). (id_set \<noteq> [] \<longrightarrow> 1 \<le> n)
      \<and> query_all_calls (snd (perform_id_field_pass step lk ctx id_field id_set st))
          = query_all_calls st @ take n (chunk_queries step id_field id_set)
      \<and> (fst (perform_id_field_pass step lk ctx id_field id_set st) = None
           \<longrightarrow> n = length (chunk_queries step id_field id_set))"
proof (cases "id_set = []")
  case True
  then show ?thesis by (simp add: perform_id_field_pass_def chunk_queries_def)
next
  case False
  then have ne: "id_chunks (max_len (field_scope step)) id_set \<noteq> []"
    using id_chunks_concat [of "max_len (field_scope step)" id_set] by auto
  from chunk_loop_calls [of "id_chunks (max_len (field_scope step)) id_set" step lk ctx
      "id_query (get_field_list (field_scope step)) (sobjectname step) id_field" st] ne False
  show ?thesis
    by (simp add: perform_id_field_pass_def chunk_queries_def)
qed

lemma for_each_no_error:
  assumes "\<And>x s. fst (body x s) = None"
  shows "fst (for_each body xs st) = None"
proof (induction xs arbitrary: st)
  case Nil
  show ?case by simp
next
  case (Cons x xs)
  obtain r st' where b: "body x st = (r, st')" by (metis prod.exhaust)
  with assms [of x st] have "r = None" by simp
  with b Cons.IH [of st'] show ?case by simp
qed

lemma empty_store_pass:
  "fst (perform_id_field_pass step lk empty_store id_field id_set st) = None"
proof -
  have "fst (for_each
             (\<lambda>(id_list, taken) st'.
                for_each (ExtractionStep_store_result step lk empty_store)
                  (query_all empty_store (id_query (get_field_list (field_scope step))
                                    (sobjectname step) id_field id_list))
                  (st'\<lparr>query_all_calls := query_all_calls st' @
                         [id_query (get_field_list (field_scope step))
                            (sobjectname step) id_field id_list]\<rparr>))
             (id_chunks (max_len (field_scope step)) id_set) st) = None"
    by (rule for_each_no_error) (auto simp: empty_store_def)
  then show ?thesis by (simp add: perform_id_field_pass_def)
qed

text \<open>
  C8.  The identifiers handed to \<^verbatim>\<open>perform_id_field_pass\<close> are 18-character identifiers
  without duplicates, and the field queried is \<^verbatim>\<open>Id\<close> or a field of the field scope (its
  two callers pass nothing else), short enough for a one-identifier clause to fit.  Then
  the chunks, read in order, hold every identifier exactly once; every chunk's text is the
  quoted identifiers of that chunk joined by commas; and every chunk's \<^verbatim>\<open>WHERE\<close> clause is
  shorter than 4000 characters.  The pass calls \<^verbatim>\<open>connection.query_all\<close> with the queries
  of these chunks and with nothing else, in the order of the chunks: with all of them when
  it ends without an exception, and with the first ones, at least one for a set that is
  not empty, when a record it receives raises.
\<close>

theorem id_chunks_cover_and_fit:
  assumes "\<forall>i \<in> set ids. length (sid i) = 18"
    and "distinct ids"
    and "id_field = ''Id'' \<or> id_field \<in> set (field_scope step)"
    and "length id_field < 3968"
  shows "concat (map snd (id_chunks (max_len (field_scope step)) ids)) = ids
     \<and> distinct (concat (map snd (id_chunks (max_len (field_scope step)) ids)))
     \<and> (ids \<noteq> [] \<longrightarrow> id_chunks (max_len (field_scope step)) ids \<noteq> [])
     \<and> (\<forall>(id_list, taken) \<in> set (id_chunks (max_len (field_scope step)) ids).
          taken \<noteq> []
          \<and> id_list = join_with '', '' (map (\<lambda>i. quote @ SalesforceId_str i @ quote) taken)
          \<and> length (where_in_clause id_field id_list) < 4000)
     \<and> chunk_queries step id_field ids
         = map (\<lambda>(id_list, taken).
                  ''SELECT '' @ get_field_list (field_scope step) @ '' FROM '' @ sobjectname step
                    @ '' '' @ where_in_clause id_field id_list)
             (id_chunks (max_len (field_scope step)) ids)
     \<and> (\<exists>n \<le> length (chunk_queries step id_field ids). (ids \<noteq> [] \<longrightarrow> 1 \<le> n)
          \<and> query_all_calls (snd (perform_id_field_pass step lk ctx id_field ids st))
              = query_all_calls st @ take n (chunk_queries step id_field ids))
     \<and> (fst (perform_id_field_pass step lk ctx id_field ids st) = None \<longrightarrow>
          query_all_calls (snd (perform_id_field_pass step lk ctx id_field ids st))
            = query_all_calls st @ chunk_queries step id_field ids)"
proof -
  note chunks = chunks_cover_and_fit [OF assms]
  have q: "chunk_queries step id_field ids
         = map (\<lambda>(id_list, taken).
                  ''SELECT '' @ get_field_list (field_scope step) @ '' FROM '' @ sobjectname step
                    @ '' '' @ where_in_clause id_field id_list)
             (id_chunks (max_len (field_scope step)) ids)"
    by (simp add: chunk_queries_def id_query_def)
  from perform_id_field_pass_calls [of step id_field ids lk ctx st]
  obtain n where n: "n \<le> length (chunk_queries step id_field ids)" "ids \<noteq> [] \<longrightarrow> 1 \<le> n"
    "query_all_calls (snd (perform_id_field_pass step lk ctx id_field ids st))
          = query_all_calls st @ take n (chunk_queries step id_field ids)"
    "fst (perform_id_field_pass step lk ctx id_field ids st) = None
           \<longrightarrow> n = length (chunk_queries step id_field ids)"
    by (elim exE conjE)
  have p: "\<exists>n \<le> length (chunk_queries step id_field ids). (ids \<noteq> [] \<longrightarrow> 1 \<le> n)
          \<and> query_all_calls (snd (perform_id_field_pass step lk ctx id_field ids st))
              = query_all_calls st @ take n (chunk_queries step id_field ids)"
    by (rule exI [of _ n]) (use n in simp)
  have a: "fst (perform_id_field_pass step lk ctx id_field ids st) = None \<longrightarrow>
          query_all_calls (snd (perform_id_field_pass step lk ctx id_field ids st))
            = query_all_calls st @ chunk_queries step id_field ids"
    using n(3,4) by simp
  from chunks q p a show ?thesis by (intro conjI) (elim conjE, assumption)+
qed

theorem id_chunks_cover_and_fit_witness:
  "list_all (\<lambda>i. length (sid i) = 18) five_ids
   \<and> distinct five_ids
   \<and> max_len (field_scope wide_step) = 60
   \<and> id_chunks (max_len (field_scope wide_step)) five_ids =
     [(quote @ ''001000000000001AAA'' @ quote @ '', '' @ quote @ ''001000000000002AAA'' @ quote,
       [SalesforceId ''001000000000001AAA'', SalesforceId ''001000000000002AAA'']),
      (quote @ ''001000000000003AAA'' @ quote @ '', '' @ quote @ ''001000000000004AAA'' @ quote,
       [SalesforceId ''001000000000003AAA'', SalesforceId ''001000000000004AAA'']),
      (quote @ ''001000000000005AAA'' @ quote, [SalesforceId ''001000000000005AAA''])]
   \<and> fst (perform_id_field_pass wide_step no_lookups empty_store ''Id'' five_ids no_calls) = None
   \<and> query_all_calls
        (snd (perform_id_field_pass wide_step no_lookups empty_store ''Id'' five_ids no_calls))
      = [''SELECT '' @ get_field_list (field_scope wide_step) @ '' FROM Account ''
           @ where_in_clause ''Id''
               (quote @ ''001000000000001AAA'' @ quote @ '', '' @ quote @ ''001000000000002AAA'' @ quote),
         ''SELECT '' @ get_field_list (field_scope wide_step) @ '' FROM Account ''
           @ where_in_clause ''Id''
               (quote @ ''001000000000003AAA'' @ quote @ '', '' @ quote @ ''001000000000004AAA'' @ quote),
         ''SELECT '' @ get_field_list (field_scope wide_step) @ '' FROM Account ''
           @ where_in_clause ''Id'' (quote @ ''001000000000005AAA'' @ quote)]
   \<and> length (where_in_clause ''Id''
        (quote @ ''001000000000001AAA'' @ quote @ '', '' @ quote @ ''001000000000002AAA'' @ quote))
      = 56"
proof -
  have h1: "\<forall>i \<in> set five_ids. length (sid i) = 18" by (simp add: five_ids_def)
  have h2: "distinct five_ids" by (simp add: five_ids_def)
  have h3: "''Id'' = ''Id'' \<or> ''Id'' \<in> set (field_scope wide_step)" by simp
  have h4: "length ''Id'' < 3968" by simp
  have l: "list_all (\<lambda>i. length (sid i) = 18) five_ids" by (simp add: five_ids_def)
  have s: "sobjectname wide_step = ''Account''" by (simp add: wide_step_def)
  note t = id_chunks_cover_and_fit [OF h1 h2 h3 h4, of no_lookups empty_store no_calls]
  have c: "id_chunks (max_len (field_scope wide_step)) five_ids = id_chunks 60 five_ids"
    by (simp only: wide_step_max_len)
  have e: "fst (perform_id_field_pass wide_step no_lookups empty_store ''Id'' five_ids no_calls) = None"
    by (rule empty_store_pass)
  from t e have "query_all_calls
        (snd (perform_id_field_pass wide_step no_lookups empty_store ''Id'' five_ids no_calls))
      = query_all_calls no_calls @ chunk_queries wide_step ''Id'' five_ids" by blast
  moreover from t have "chunk_queries wide_step ''Id'' five_ids
         = map (\<lambda>(id_list, taken).
                  ''SELECT '' @ get_field_list (field_scope wide_step) @ '' FROM '' @ sobjectname wide_step
                    @ '' '' @ where_in_clause ''Id'' id_list)
             (id_chunks (max_len (field_scope wide_step)) five_ids)" by blast
  ultimately have q: "query_all_calls
        (snd (perform_id_field_pass wide_step no_lookups empty_store ''Id'' five_ids no_calls))
      = map (\<lambda>(id_list, taken).
                  ''SELECT '' @ get_field_list (field_scope wide_step) @ '' FROM Account ''
                    @ where_in_clause ''Id'' id_list)
             (id_chunks 60 five_ids)"
    by (simp add: c s no_calls_def)
  have w: "length (where_in_clause ''Id''
        (quote @ ''001000000000001AAA'' @ quote @ '', '' @ quote @ ''001000000000002AAA'' @ quote))
      = 56" by code_simp
  show ?thesis
    unfolding q c five_chunks
    using l h2 wide_step_max_len e w by simp
qed

section \<open>Properties of the tracing loop\<close>

text \<open>
  C4.  The tracing loop ends: run with a bound of one round more than there are
  18-character identifiers not yet extracted for the step's sObject, it has ended, with
  the result of the unbounded loop.  A round, and the whole loop, only append identifiers
  to the extracted sets.  After a round that raised, the loop ends with that exception;
  after a round that did not, it ends exactly if the round added no identifier to the
  extracted set of the step's sObject, and starts the next round otherwise.  A step with
  a self lookup, \<^verbatim>\<open>TRACE_ALL\<close> and a scope other than \<^verbatim>\<open>ALL_RECORDS\<close> runs this loop after
  the passes of its scope.
\<close>

theorem tracing_loop_reaches_fixed_point:
  "trace_self_lookups_bounded (Suc (card (unextracted st (sobjectname step)))) step lk ctx st
     = Some (trace_self_lookups step lk ctx st)
   \<and> only_appends st (snd (trace_iteration step lk ctx st))
   \<and> only_appends st (snd (trace_self_lookups step lk ctx st))
   \<and> (case trace_iteration step lk ctx st of
         (Some e, st') \<Rightarrow> trace_self_lookups step lk ctx st = (Some e, st')
       | (None, st') \<Rightarrow>
           (set (get_extracted_ids st' (sobjectname step))
              = set (get_extracted_ids st (sobjectname step))
            \<longrightarrow> trace_self_lookups step lk ctx st = (None, st'))
         \<and> (set (get_extracted_ids st' (sobjectname step))
              \<noteq> set (get_extracted_ids st (sobjectname step))
            \<longrightarrow> trace_self_lookups step lk ctx st = trace_self_lookups step lk ctx st'))
   \<and> (scan_fields (field_maps ctx (sobjectname step)) (sobject_list ctx)
          (sobjectname step) (field_scope step) = Inr lk
        \<and> length (self_lookups lk) > 0 \<and> self_lookup_behavior step = TRACE_ALL
        \<and> scope step \<noteq> ALL_RECORDS
        \<longrightarrow> ExtractionStep_execute step ctx st
            = (case scope_passes step lk ctx st of
                 (Some e, st2) \<Rightarrow> (Some e, st2)
               | (None, st2) \<Rightarrow> trace_self_lookups step lk ctx st2))"
proof -
  have 1: "trace_self_lookups_bounded (Suc (card (unextracted st (sobjectname step)))) step lk ctx st
     = Some (trace_self_lookups step lk ctx st)"
    by (rule trace_self_lookups_bounded_enough) simp
  obtain r st' where it: "trace_iteration step lk ctx st = (r, st')" by (metis prod.exhaust)
  have a: "only_appends st st'" using trace_iteration_only_appends [of st step lk ctx] it by simp
  have eq: "set (get_extracted_ids st' (sobjectname step)) = set (get_extracted_ids st (sobjectname step))
        \<longleftrightarrow> length (get_extracted_ids st (sobjectname step))
            = length (get_extracted_ids st' (sobjectname step))"
  proof -
    from a obtain new where n: "get_extracted_ids st' (sobjectname step)
        = get_extracted_ids st (sobjectname step) @ new"
      "\<forall>i \<in> set new. length (sid i) = 18 \<and> i \<notin> set (get_extracted_ids st (sobjectname step))"
      unfolding only_appends_def by blast
    show ?thesis
    proof (cases new)
      case Nil
      with n(1) show ?thesis by simp
    next
      case (Cons x xs)
      with n have "x \<in> set (get_extracted_ids st' (sobjectname step))"
        "x \<notin> set (get_extracted_ids st (sobjectname step))" by auto
      then have "set (get_extracted_ids st' (sobjectname step))
          \<noteq> set (get_extracted_ids st (sobjectname step))" by blast
      with n(1) Cons show ?thesis by simp
    qed
  qed
  have 4: "case trace_iteration step lk ctx st of
         (Some e, st') \<Rightarrow> trace_self_lookups step lk ctx st = (Some e, st')
       | (None, st') \<Rightarrow>
           (set (get_extracted_ids st' (sobjectname step))
              = set (get_extracted_ids st (sobjectname step))
            \<longrightarrow> trace_self_lookups step lk ctx st = (None, st'))
         \<and> (set (get_extracted_ids st' (sobjectname step))
              \<noteq> set (get_extracted_ids st (sobjectname step))
            \<longrightarrow> trace_self_lookups step lk ctx st = trace_self_lookups step lk ctx st')"
  proof (cases r)
    case (Some e)
    with it show ?thesis by (subst trace_self_lookups.simps) simp
  next
    case None
    have "trace_self_lookups step lk ctx st =
        (if length (get_extracted_ids st (sobjectname step))
              = length (get_extracted_ids st' (sobjectname step))
         then (None, st') else trace_self_lookups step lk ctx st')"
      using it None by (subst trace_self_lookups.simps) simp
    with it None eq show ?thesis by simp
  qed
  have 5: "scan_fields (field_maps ctx (sobjectname step)) (sobject_list ctx)
          (sobjectname step) (field_scope step) = Inr lk
        \<and> length (self_lookups lk) > 0 \<and> self_lookup_behavior step = TRACE_ALL
        \<and> scope step \<noteq> ALL_RECORDS
        \<longrightarrow> ExtractionStep_execute step ctx st
            = (case scope_passes step lk ctx st of
                 (Some e, st2) \<Rightarrow> (Some e, st2)
               | (None, st2) \<Rightarrow> trace_self_lookups step lk ctx st2)"
    by (auto simp: ExtractionStep_execute_def split: prod.splits option.splits)
  from 1 trace_iteration_only_appends trace_self_lookups_only_appends 4 5
  show ?thesis by blast
qed

theorem tracing_loop_reaches_fixed_point_witness:
  "scan_fields (field_maps account_operation (sobjectname account_step))
     (sobject_list account_operation) (sobjectname account_step) (field_scope account_step)
     = Inr account_lookups
   \<and> length (self_lookups account_lookups) > 0
   \<and> self_lookup_behavior account_step = TRACE_ALL
   \<and> scope account_step \<noteq> ALL_RECORDS
   \<and> ExtractionStep_execute account_step account_operation account_start
      = (case scope_passes account_step account_lookups account_operation account_start of
           (Some e, st2) \<Rightarrow> (Some e, st2)
         | (None, st2) \<Rightarrow> trace_self_lookups account_step account_lookups account_operation st2)
   \<and> fst (ExtractionStep_execute account_step account_operation account_start) = None
   \<and> get_extracted_ids (snd (ExtractionStep_execute account_step account_operation account_start))
        ''Account''
      = [SalesforceId ''001000000000003AAA'', SalesforceId ''001000000000002AAA'',
         SalesforceId ''001000000000001AAA'']"
proof -
  have h: "length (self_lookups account_lookups) > 0 \<and> self_lookup_behavior account_step = TRACE_ALL
       \<and> scope account_step \<noteq> ALL_RECORDS"
    by (simp add: account_lookups_def account_step_def)
  from tracing_loop_reaches_fixed_point
         [of account_start account_step account_lookups account_operation]
       account_scan h account_execute_extracted
  show ?thesis by simp
qed

section \<open>Properties of the extracted identifiers and the sink\<close>

lemma store_result_seen:
  assumes "record_id record = Inr i" and "i \<in> set (get_extracted_ids st s)"
  shows "ExtractOperation_store_result ctx s record st =
           (None, case required_ids st s of
                    None \<Rightarrow> st
                  | Some req \<Rightarrow>
                      if i \<in> set req
                      then st\<lparr>required_ids := (required_ids st)(s \<mapsto> removeAll i req)\<rparr>
                      else st)"
proof -
  from assms(2) have "extracted_ids st s \<noteq> None"
    by (cases "extracted_ids st s") (auto simp: get_extracted_ids_def)
  with assms show ?thesis
    by (auto simp: ExtractOperation_store_result_def record_id_def split: sum.splits)
qed

lemma store_result_new:
  assumes "record_id record = Inr i" and "i \<notin> set (get_extracted_ids st s)"
    and "output_files st s = Some rows"
  shows "fst (ExtractOperation_store_result ctx s record st) = None"
    and "extracted_ids (snd (ExtractOperation_store_result ctx s record st))
           = (extracted_ids st)(s \<mapsto> get_extracted_ids st s @ [i])"
    and "output_files (snd (ExtractOperation_store_result ctx s record st))
           = (output_files st)(s \<mapsto> rows @ [written_row ctx s record])"
  using assms
  by (auto simp: ExtractOperation_store_result_def record_id_def written_row_def Let_def
      get_extracted_ids_def split: sum.splits option.splits)


lemma one_row_per_id_cong:
  "get_extracted_ids st' = get_extracted_ids st \<Longrightarrow> output_files st' = output_files st
     \<Longrightarrow> one_row_per_id ctx st' = one_row_per_id ctx st"
  by (simp add: one_row_per_id_def)

lemma one_row_per_id_required:
  "extracted_ids st' = extracted_ids st \<Longrightarrow> output_files st' = output_files st
     \<Longrightarrow> one_row_per_id ctx st \<Longrightarrow> one_row_per_id ctx st'"
  by (simp add: one_row_per_id_def get_extracted_ids_def)

lemma store_result_one_row_per_id:
  assumes inv: "one_row_per_id ctx st"
  shows "one_row_per_id ctx (snd (ExtractOperation_store_result ctx s record st))"
proof -
  let ?st1 = "if extracted_ids st s = None
                 then st\<lparr>extracted_ids := (extracted_ids st)(s \<mapsto> [])\<rparr> else st"
  have e1: "get_extracted_ids ?st1 = get_extracted_ids st"
    by (rule ext) (simp add: get_extracted_ids_def)
  have o1: "output_files ?st1 = output_files st" by simp
  have inv1: "one_row_per_id ctx ?st1" using one_row_per_id_cong [OF e1 o1] inv by simp
  show ?thesis
  proof (cases "record_id record")
    case (Inl e)
    then have "snd (ExtractOperation_store_result ctx s record st) = ?st1"
      by (auto simp: ExtractOperation_store_result_def record_id_def Let_def split: sum.splits)
    with inv1 show ?thesis by simp
  next
    case (Inr i)
    show ?thesis
    proof (cases "i \<in> set (get_extracted_ids st s)")
      case True
      show ?thesis
        unfolding store_result_seen [OF Inr True]
        by (rule one_row_per_id_required [OF _ _ inv]) (auto split: option.splits)
    next
      case False
      show ?thesis
      proof (cases "output_files st s")
        case None
        have st': "snd (ExtractOperation_store_result ctx s record st)
            = ?st1\<lparr>extracted_ids := (extracted_ids ?st1)(s \<mapsto> get_extracted_ids st s @ [i])\<rparr>"
          using Inr False None e1
          by (auto simp: ExtractOperation_store_result_def record_id_def Let_def split: sum.splits)
        have "get_extracted_ids (snd (ExtractOperation_store_result ctx s record st)) t
            = (if t = s then get_extracted_ids st s @ [i] else get_extracted_ids st t)" for t
          unfolding st' by (simp add: get_extracted_ids_def)
        moreover have "output_files (snd (ExtractOperation_store_result ctx s record st))
            = output_files st"
          unfolding st' by simp
        ultimately show ?thesis using inv False None
          by (auto simp: one_row_per_id_def split: option.splits)
      next
        case (Some rows)
        note new = store_result_new [OF Inr False Some, of ctx]
        have g: "get_extracted_ids (snd (ExtractOperation_store_result ctx s record st)) t
            = (if t = s then get_extracted_ids st s @ [i] else get_extracted_ids st t)" for t
          using new(2) by (simp add: get_extracted_ids_def)
        from inv Some obtain recs where recs: "rows = map (written_row ctx s) recs"
          "map record_id recs = map Inr (get_extracted_ids st s)"
          unfolding one_row_per_id_def by blast
        have "rows @ [written_row ctx s record] = map (written_row ctx s) (recs @ [record])"
          using recs(1) by simp
        moreover have "map record_id (recs @ [record]) = map Inr (get_extracted_ids st s @ [i])"
          using recs(2) Inr by simp
        ultimately have ex: "\<exists>recs'. rows @ [written_row ctx s record] = map (written_row ctx s) recs'
            \<and> map record_id recs' = map Inr (get_extracted_ids st s @ [i])"
          by blast
        show ?thesis
          unfolding one_row_per_id_def
        proof (rule allI, rule conjI)
          fix t
          show "distinct (get_extracted_ids (snd (ExtractOperation_store_result ctx s record st)) t)"
            using inv False by (simp add: g one_row_per_id_def)
          show "\<forall>rows'. output_files (snd (ExtractOperation_store_result ctx s record st)) t
                    = Some rows' \<longrightarrow>
                  (\<exists>recs. rows' = map (written_row ctx t) recs
                      \<and> map record_id recs
                          = map Inr (get_extracted_ids
                              (snd (ExtractOperation_store_result ctx s record st)) t))"
          proof (cases "t = s")
            case True
            with ex show ?thesis by (simp add: new(3) g)
          next
            case False
            with inv show ?thesis
              by (simp add: new(3) g one_row_per_id_def)
          qed
        qed
      qed
    qed
  qed
qed

lemma store_results_one_row_per_id:
  "one_row_per_id ctx st \<Longrightarrow> one_row_per_id ctx (snd (store_results ctx cs st))"
  unfolding store_results_def
  by (rule for_each_invariant) (auto simp: store_result_one_row_per_id)


lemma add_dependency_output_files [simp]:
  "output_files (add_dependency s i st) = output_files st"
  by (simp add: add_dependency_def Let_def)

lemma add_dependency_one_row_per_id:
  "one_row_per_id ctx st \<Longrightarrow> one_row_per_id ctx (add_dependency s i st)"
  by (rule one_row_per_id_required) simp_all

lemma register_self_lookup_one_row_per_id:
  "one_row_per_id ctx st \<Longrightarrow> one_row_per_id ctx (snd (register_self_lookup step result l st))"
  by (auto simp: register_self_lookup_def add_dependency_one_row_per_id
      split: sum.splits option.splits)

lemma register_dependent_lookup_one_row_per_id:
  "one_row_per_id ctx st \<Longrightarrow>
     one_row_per_id ctx (snd (register_dependent_lookup step ctx result f st))"
  by (auto simp: register_dependent_lookup_def add_dependency_one_row_per_id
      split: sum.splits option.splits)

lemma ExtractionStep_store_result_one_row_per_id:
  assumes "one_row_per_id ctx st"
  shows "one_row_per_id ctx (snd (ExtractionStep_store_result step lk ctx result st))"
proof -
  obtain r1 st1 where 1: "for_each (register_self_lookup step result) (self_lookups lk) st = (r1, st1)"
    by (metis prod.exhaust)
  have p1: "one_row_per_id ctx st1"
    using for_each_invariant [of "one_row_per_id ctx" "register_self_lookup step result" st
        "self_lookups lk"] register_self_lookup_one_row_per_id assms 1 by simp
  obtain r2 st2 where 2: "for_each (register_dependent_lookup step ctx result) (dependent_lookups lk) st1
      = (r2, st2)"
    by (metis prod.exhaust)
  have p2: "one_row_per_id ctx st2"
    using for_each_invariant [of "one_row_per_id ctx" "register_dependent_lookup step ctx result" st1
        "dependent_lookups lk"] register_dependent_lookup_one_row_per_id p1 2 by simp
  have p3: "one_row_per_id ctx (snd (ExtractOperation_store_result ctx (sobjectname step) r' st2))" for r'
    using store_result_one_row_per_id [OF p2] .
  show ?thesis
    using 1 2 p1 p2 p3
    by (auto simp: ExtractionStep_store_result_def split: option.splits sum.splits)
qed

lemma perform_id_field_pass_one_row_per_id:
  assumes "one_row_per_id ctx st"
  shows "one_row_per_id ctx (snd (perform_id_field_pass step lk ctx id_field id_set st))"
proof -
  have inner: "one_row_per_id ctx s \<Longrightarrow>
      one_row_per_id ctx (snd (for_each (ExtractionStep_store_result step lk ctx) rows s))"
    for rows s
    by (rule for_each_invariant) (auto simp: ExtractionStep_store_result_one_row_per_id)
  have logged: "one_row_per_id ctx s \<Longrightarrow>
      one_row_per_id ctx
        (snd (for_each (ExtractionStep_store_result step lk ctx) rows (s\<lparr>query_all_calls := q\<rparr>)))"
    for rows s q
    by (rule inner, rule one_row_per_id_required) simp_all
  have "one_row_per_id ctx (snd (for_each
             (\<lambda>(id_list, taken) st'.
                for_each (ExtractionStep_store_result step lk ctx)
                  (query_all ctx (id_query (get_field_list (field_scope step))
                                    (sobjectname step) id_field id_list))
                  (st'\<lparr>query_all_calls := query_all_calls st' @
                         [id_query (get_field_list (field_scope step))
                            (sobjectname step) id_field id_list]\<rparr>))
             (id_chunks (max_len (field_scope step)) id_set) st))"
    by (rule for_each_invariant) (auto simp: logged assms)
  with assms show ?thesis by (simp add: perform_id_field_pass_def)
qed

lemma resolve_registered_dependencies_one_row_per_id:
  "one_row_per_id ctx st \<Longrightarrow>
     one_row_per_id ctx (snd (resolve_registered_dependencies step lk ctx st))"
  using perform_id_field_pass_one_row_per_id
    [of ctx st step lk "''Id''" "get_dependencies st (sobjectname step)"]
  by (auto simp: resolve_registered_dependencies_def Let_def split: prod.splits option.splits)

lemma perform_lookup_pass_one_row_per_id:
  "one_row_per_id ctx st \<Longrightarrow> one_row_per_id ctx (snd (perform_lookup_pass step lk ctx field st))"
  by (auto simp: perform_lookup_pass_def perform_id_field_pass_one_row_per_id split: sum.splits)

lemma perform_bulk_api_pass_one_row_per_id:
  "one_row_per_id ctx st \<Longrightarrow> one_row_per_id ctx (snd (perform_bulk_api_pass step lk ctx query st))"
  unfolding perform_bulk_api_pass_def
  by (rule for_each_invariant) (auto simp: ExtractionStep_store_result_one_row_per_id)

lemma lookup_passes_one_row_per_id:
  "one_row_per_id ctx st \<Longrightarrow>
     one_row_per_id ctx (snd (for_each (perform_lookup_pass step lk ctx) fs st))"
  by (rule for_each_invariant) (auto simp: perform_lookup_pass_one_row_per_id)

lemma trace_iteration_one_row_per_id:
  assumes "one_row_per_id ctx st"
  shows "one_row_per_id ctx (snd (trace_iteration step lk ctx st))"
proof -
  obtain r st1 where 1: "for_each (perform_lookup_pass step lk ctx) (self_lookups lk) st = (r, st1)"
    by (metis prod.exhaust)
  have p1: "one_row_per_id ctx st1"
    using lookup_passes_one_row_per_id [OF assms, of step lk "self_lookups lk"] 1 by simp
  from resolve_registered_dependencies_one_row_per_id [OF p1, of step lk] 1 p1
  show ?thesis by (auto simp: trace_iteration_def split: option.splits)
qed

lemma trace_self_lookups_one_row_per_id:
  "one_row_per_id ctx st \<Longrightarrow> one_row_per_id ctx (snd (trace_self_lookups step lk ctx st))"
proof (induction step lk ctx st rule: trace_self_lookups.induct)
  case (1 step lk ctx st)
  obtain r st' where it: "trace_iteration step lk ctx st = (r, st')" by (metis prod.exhaust)
  have p: "one_row_per_id ctx st'"
    using trace_iteration_one_row_per_id [OF 1(2), of step lk] it by simp
  show ?case
  proof (cases r)
    case (Some e)
    with it p show ?thesis by (subst trace_self_lookups.simps) simp
  next
    case None
    show ?thesis
    proof (cases "length (get_extracted_ids st (sobjectname step))
                    = length (get_extracted_ids st' (sobjectname step))")
      case True
      with it None p show ?thesis by (subst trace_self_lookups.simps) simp
    next
      case False
      have "one_row_per_id ctx (snd (trace_self_lookups step lk ctx st'))"
        using 1(1) [OF refl it [symmetric] None refl False p] .
      with it None False show ?thesis by (subst trace_self_lookups.simps) simp
    qed
  qed
qed

lemma scope_passes_one_row_per_id:
  assumes "one_row_per_id ctx st"
  shows "one_row_per_id ctx (snd (scope_passes step lk ctx st))"
proof -
  let ?first = "if scope step = QUERY
            then perform_bulk_api_pass step lk ctx
                   (''SELECT '' @ get_field_list (field_scope step) @ '' FROM '' @ sobjectname step
                      @ '' WHERE '' @ py_str (where_clause step)) st
            else if scope step = DESCENDENTS
            then for_each (perform_lookup_pass step lk ctx) (descendent_lookups lk) st
            else (None, st)"
  obtain r st1 where 1: "?first = (r, st1)" by (metis prod.exhaust)
  have "one_row_per_id ctx (snd ?first)"
    using assms by (simp add: perform_bulk_api_pass_one_row_per_id lookup_passes_one_row_per_id)
  with 1 have p1: "one_row_per_id ctx st1" by simp
  from resolve_registered_dependencies_one_row_per_id [OF p1, of step lk] 1 p1
  show ?thesis unfolding scope_passes_def by (auto split: option.splits)
qed

lemma ExtractionStep_execute_one_row_per_id:
  assumes "one_row_per_id ctx st"
  shows "one_row_per_id ctx (snd (ExtractionStep_execute step ctx st))"
proof (cases "scan_fields (field_maps ctx (sobjectname step)) (sobject_list ctx)
             (sobjectname step) (field_scope step)")
  case (Inl e)
  with assms show ?thesis by (simp add: ExtractionStep_execute_def)
next
  case (Inr lk)
  obtain r st2 where 2: "scope_passes step lk ctx st = (r, st2)" by (metis prod.exhaust)
  have p2: "one_row_per_id ctx st2" using scope_passes_one_row_per_id [OF assms, of step lk] 2 by simp
  from Inr 2 p2 trace_self_lookups_one_row_per_id [OF p2, of step lk]
    perform_bulk_api_pass_one_row_per_id [OF assms, of step lk]
  show ?thesis by (auto simp: ExtractionStep_execute_def split: option.splits)
qed


lemma one_row_per_id_initial:
  assumes "extracted_ids st = Map.empty" and "\<forall>s rows. output_files st s = Some rows \<longrightarrow> rows = []"
  shows "one_row_per_id ctx st"
  using assms by (auto simp: one_row_per_id_def get_extracted_ids_def)

text \<open>
  C7.  \<^verbatim>\<open>ExtractOperation.store_result\<close> on a record whose identifier is already
  extracted for the sObject raises nothing and leaves every extracted set and every
  output file as they are, and the identifier is no longer among the required
  identifiers of the sObject.  On a record whose identifier is new it appends the
  identifier to the sObject's extracted set and one row to its output file.  So, starting
  with nothing extracted and empty files, after any run of \<^verbatim>\<open>store_result\<close> calls, of
  lookup passes or of a whole step, the extracted identifiers of every sObject are
  pairwise different and its output file holds exactly one row for each of them.
\<close>

theorem extracted_and_written_once:
  "(record_id record = Inr i \<and> i \<in> set (get_extracted_ids st s) \<longrightarrow>
      fst (ExtractOperation_store_result ctx s record st) = None
      \<and> extracted_ids (snd (ExtractOperation_store_result ctx s record st)) = extracted_ids st
      \<and> output_files (snd (ExtractOperation_store_result ctx s record st)) = output_files st
      \<and> get_dependencies (snd (ExtractOperation_store_result ctx s record st)) s
          = removeAll i (get_dependencies st s)
      \<and> i \<notin> set (get_dependencies (snd (ExtractOperation_store_result ctx s record st)) s))
   \<and> (record_id record = Inr i \<and> i \<notin> set (get_extracted_ids st s)
        \<and> output_files st s = Some rows \<longrightarrow>
      fst (ExtractOperation_store_result ctx s record st) = None
      \<and> get_extracted_ids (snd (ExtractOperation_store_result ctx s record st)) s
          = get_extracted_ids st s @ [i]
      \<and> output_files (snd (ExtractOperation_store_result ctx s record st)) s
          = Some (rows @ [written_row ctx s record]))
   \<and> (extracted_ids st = Map.empty \<and> (\<forall>t rows. output_files st t = Some rows \<longrightarrow> rows = [])
        \<longrightarrow> one_row_per_id ctx st)
   \<and> (one_row_per_id ctx st \<longrightarrow>
        one_row_per_id ctx (snd (ExtractOperation_store_result ctx s record st))
        \<and> one_row_per_id ctx (snd (store_results ctx cs st))
        \<and> one_row_per_id ctx (snd (ExtractionStep_store_result step lk ctx record st))
        \<and> one_row_per_id ctx (snd (perform_id_field_pass step lk ctx id_field id_set st))
        \<and> one_row_per_id ctx (snd (ExtractionStep_execute step ctx st)))"
proof -
  have 1: "record_id record = Inr i \<and> i \<in> set (get_extracted_ids st s) \<longrightarrow>
      fst (ExtractOperation_store_result ctx s record st) = None
      \<and> extracted_ids (snd (ExtractOperation_store_result ctx s record st)) = extracted_ids st
      \<and> output_files (snd (ExtractOperation_store_result ctx s record st)) = output_files st
      \<and> get_dependencies (snd (ExtractOperation_store_result ctx s record st)) s
          = removeAll i (get_dependencies st s)
      \<and> i \<notin> set (get_dependencies (snd (ExtractOperation_store_result ctx s record st)) s)"
  proof
    assume h: "record_id record = Inr i \<and> i \<in> set (get_extracted_ids st s)"
    then have r: "record_id record = Inr i" and m: "i \<in> set (get_extracted_ids st s)" by simp_all
    show "fst (ExtractOperation_store_result ctx s record st) = None
      \<and> extracted_ids (snd (ExtractOperation_store_result ctx s record st)) = extracted_ids st
      \<and> output_files (snd (ExtractOperation_store_result ctx s record st)) = output_files st
      \<and> get_dependencies (snd (ExtractOperation_store_result ctx s record st)) s
          = removeAll i (get_dependencies st s)
      \<and> i \<notin> set (get_dependencies (snd (ExtractOperation_store_result ctx s record st)) s)"
      unfolding store_result_seen [OF r m]
      by (cases "required_ids st s") (auto simp: get_dependencies_def)
  qed
  have 2: "record_id record = Inr i \<and> i \<notin> set (get_extracted_ids st s)
        \<and> output_files st s = Some rows \<longrightarrow>
      fst (ExtractOperation_store_result ctx s record st) = None
      \<and> get_extracted_ids (snd (ExtractOperation_store_result ctx s record st)) s
          = get_extracted_ids st s @ [i]
      \<and> output_files (snd (ExtractOperation_store_result ctx s record st)) s
          = Some (rows @ [written_row ctx s record])"
  proof
    assume h: "record_id record = Inr i \<and> i \<notin> set (get_extracted_ids st s)
        \<and> output_files st s = Some rows"
    then have r: "record_id record = Inr i" and m: "i \<notin> set (get_extracted_ids st s)"
      and f: "output_files st s = Some rows" by simp_all
    note new = store_result_new [OF r m f, of ctx]
    have "get_extracted_ids (snd (ExtractOperation_store_result ctx s record st)) s
          = get_extracted_ids st s @ [i]"
      using new(2) by (simp add: get_extracted_ids_def)
    with new(1,3) show "fst (ExtractOperation_store_result ctx s record st) = None
      \<and> get_extracted_ids (snd (ExtractOperation_store_result ctx s record st)) s
          = get_extracted_ids st s @ [i]
      \<and> output_files (snd (ExtractOperation_store_result ctx s record st)) s
          = Some (rows @ [written_row ctx s record])"
      by simp
  qed
  have 3: "extracted_ids st = Map.empty \<and> (\<forall>t rows. output_files st t = Some rows \<longrightarrow> rows = [])
        \<longrightarrow> one_row_per_id ctx st"
    using one_row_per_id_initial [of st ctx] by blast
  have 4: "one_row_per_id ctx st \<longrightarrow>
        one_row_per_id ctx (snd (ExtractOperation_store_result ctx s record st))
        \<and> one_row_per_id ctx (snd (store_results ctx cs st))
        \<and> one_row_per_id ctx (snd (ExtractionStep_store_result step lk ctx record st))
        \<and> one_row_per_id ctx (snd (perform_id_field_pass step lk ctx id_field id_set st))
        \<and> one_row_per_id ctx (snd (ExtractionStep_execute step ctx st))"
    by (simp add: store_result_one_row_per_id store_results_one_row_per_id
      ExtractionStep_store_result_one_row_per_id perform_id_field_pass_one_row_per_id
      ExtractionStep_execute_one_row_per_id)
  from 1 2 3 4 show ?thesis by blast
qed


theorem extracted_and_written_once_witness:
  "record_id account_C = Inr (SalesforceId ''001000000000003AAA'')
   \<and> SalesforceId ''001000000000003AAA'' \<notin> set (get_extracted_ids account_start ''Account'')
   \<and> output_files account_start ''Account'' = Some []
   \<and> get_dependencies account_start ''Account'' = [SalesforceId ''001000000000003AAA'']
   \<and> fst (ExtractOperation_store_result account_operation ''Account'' account_C account_start) = None
   \<and> get_extracted_ids
        (snd (ExtractOperation_store_result account_operation ''Account'' account_C account_start))
        ''Account'' = [SalesforceId ''001000000000003AAA'']
   \<and> output_files
        (snd (ExtractOperation_store_result account_operation ''Account'' account_C account_start))
        ''Account'' = Some [account_C]
   \<and> fst (ExtractOperation_store_result account_operation ''Account'' account_C
        (snd (ExtractOperation_store_result account_operation ''Account'' account_C account_start)))
      = None
   \<and> extracted_ids (snd (ExtractOperation_store_result account_operation ''Account'' account_C
        (snd (ExtractOperation_store_result account_operation ''Account'' account_C account_start))))
      = extracted_ids
          (snd (ExtractOperation_store_result account_operation ''Account'' account_C account_start))
   \<and> output_files (snd (ExtractOperation_store_result account_operation ''Account'' account_C
        (snd (ExtractOperation_store_result account_operation ''Account'' account_C account_start))))
      = output_files
          (snd (ExtractOperation_store_result account_operation ''Account'' account_C account_start))
   \<and> one_row_per_id account_operation account_start
   \<and> one_row_per_id account_operation
        (snd (ExtractionStep_execute account_step account_operation account_start))"
proof -
  let ?C = "SalesforceId ''001000000000003AAA''"
  let ?st1 = "snd (ExtractOperation_store_result account_operation ''Account'' account_C account_start)"
  have r: "record_id account_C = Inr ?C" by code_simp
  have n: "?C \<notin> set (get_extracted_ids account_start ''Account'')" by code_simp
  have f: "output_files account_start ''Account'' = Some []" by code_simp
  have d: "get_dependencies account_start ''Account'' = [?C]" by code_simp
  have w: "written_row account_operation ''Account'' account_C = account_C" by code_simp
  have e: "extracted_ids account_start = Map.empty" by (simp add: account_start_def)
  have o: "\<forall>t rows. output_files account_start t = Some rows \<longrightarrow> rows = []"
    by (simp add: account_start_def)
  note first = extracted_and_written_once
    [of account_C ?C account_start "''Account''" account_operation "[]" "[]" account_step
        account_lookups "''Id''" "[]"]
  from first r n f w have s1: "fst (ExtractOperation_store_result account_operation ''Account''
        account_C account_start) = None"
    "get_extracted_ids ?st1 ''Account'' = [?C]"
    "output_files ?st1 ''Account'' = Some [account_C]"
    by (simp_all add: get_extracted_ids_def account_start_def)
  from s1(2) have m: "?C \<in> set (get_extracted_ids ?st1 ''Account'')" by simp
  note second = extracted_and_written_once
    [of account_C ?C ?st1 "''Account''" account_operation "[]" "[]" account_step
        account_lookups "''Id''" "[]"]
  from first e o have i0: "one_row_per_id account_operation account_start" by blast
  with first have i1: "one_row_per_id account_operation
        (snd (ExtractionStep_execute account_step account_operation account_start))" by blast
  from second r m have s2: "fst (ExtractOperation_store_result account_operation ''Account'' account_C ?st1)
      = None"
    "extracted_ids (snd (ExtractOperation_store_result account_operation ''Account'' account_C ?st1))
      = extracted_ids ?st1"
    "output_files (snd (ExtractOperation_store_result account_operation ''Account'' account_C ?st1))
      = output_files ?st1"
    by blast+
  from r n f d s1 s2 i0 i1 show ?thesis by blast
qed

section \<open>Properties of the load\<close>






lemma load_account_scan:
  "scan_fields (field_maps circular_operation ''Account'') [''Account''] ''Account''
     [''Name'', ''ParentId''] = Inr load_account_lookups"
  by code_simp

lemma get_new_id_register [simp]:
  "get_new_id (register_new_id old_id new_id st) k
     = (if k = old_id then Some new_id else get_new_id st k)"
  by (simp add: get_new_id_def register_new_id_def)

lemma record_id_nth:
  "record_id r = (case row_get r ''Id'' of
                    Inl e \<Rightarrow> Inl e
                  | Inr v \<Rightarrow> SalesforceId_init (to_pyval v))"
  by (simp add: record_id_def)

lemma register_results_keeps:
  assumes "get_new_id st k = Some v"
    and "\<forall>j. i \<le> j \<and> j < length recs \<longrightarrow> record_id (recs ! j) \<noteq> Inr k"
  shows "get_new_id (snd (register_results s recs i results st)) k = Some v"
  using assms
proof (induction results arbitrary: i st)
  case Nil
  then show ?case by simp
next
  case (Cons r rs)
  show ?case
  proof (cases "i < length recs \<and> success r")
    case False
    with Cons.prems(1) show ?thesis by (auto split: sum.splits)
  next
    case True
    then have i: "i < length recs" and ok: "success r" by simp_all
    show ?thesis
    proof (cases "row_get (recs ! i) ''Id''")
      case (Inl e)
      with i Cons.prems(1) show ?thesis by simp
    next
      case (Inr old)
      note old = this
      show ?thesis
      proof (cases "SalesforceId_init (to_pyval old)")
        case (Inl e)
        with i ok old Cons.prems(1) show ?thesis by simp
      next
        case (Inr old_id)
        note old_id = this
        from old old_id have "record_id (recs ! i) = Inr old_id" by (simp add: record_id_def)
        with Cons.prems(2) i have ne: "old_id \<noteq> k" by auto
        show ?thesis
        proof (cases "SalesforceId_init (to_pyval (result_id r))")
          case (Inl e)
          with i ok old old_id Cons.prems(1) show ?thesis by simp
        next
          case (Inr new_id)
          have 1: "get_new_id (register_new_id old_id new_id st) k = Some v"
            using ne Cons.prems(1) by simp
          have 2: "\<forall>j. Suc i \<le> j \<and> j < length recs \<longrightarrow> record_id (recs ! j) \<noteq> Inr k"
            using Cons.prems(2) by auto
          from Cons.IH [OF 1 2] i ok old old_id Inr show ?thesis by simp
        qed
      qed
    qed
  qed
qed

lemma register_results_registered:
  assumes "fst (register_results s recs i results st) = None"
    and "\<forall>j j'. i \<le> j \<and> j < j' \<and> j' < length recs \<longrightarrow> record_id (recs ! j) \<noteq> record_id (recs ! j')"
    and "i \<le> j" and "j < i + length results"
    and "record_id (recs ! j) = Inr old_id"
    and "SalesforceId_init (to_pyval (result_id (results ! (j - i)))) = Inr new_id"
  shows "get_new_id (snd (register_results s recs i results st)) old_id = Some new_id"
  using assms
proof (induction results arbitrary: i st)
  case Nil
  then show ?case by simp
next
  case (Cons r rs)
  from Cons.prems(1) have i: "i < length recs"
    by (auto split: if_splits sum.splits)
  from Cons.prems(1) i obtain old where old: "row_get (recs ! i) ''Id'' = Inr old"
    by (cases "row_get (recs ! i) ''Id''") auto
  from Cons.prems(1) i old have ok: "success r"
    by (auto split: if_splits)
  from Cons.prems(1) i old ok obtain o1 where o1: "SalesforceId_init (to_pyval old) = Inr o1"
    by (cases "SalesforceId_init (to_pyval old)") auto
  from Cons.prems(1) i old ok o1 obtain n1 where n1: "SalesforceId_init (to_pyval (result_id r)) = Inr n1"
    by (cases "SalesforceId_init (to_pyval (result_id r))") auto
  have step: "register_results s recs i (r # rs) st
      = register_results s recs (Suc i) rs (register_new_id o1 n1 st)"
    using i old ok o1 n1 by simp
  have rid: "record_id (recs ! i) = Inr o1" using old o1 by (simp add: record_id_def)
  show ?case
  proof (cases "j = i")
    case True
    with Cons.prems(5,6) rid n1 have e: "old_id = o1" "new_id = n1" by simp_all
    have 1: "get_new_id (register_new_id o1 n1 st) o1 = Some n1" by simp
    have 2: "\<forall>j'. Suc i \<le> j' \<and> j' < length recs \<longrightarrow> record_id (recs ! j') \<noteq> Inr o1"
    proof (intro allI impI)
      fix j' assume "Suc i \<le> j' \<and> j' < length recs"
      then have "i \<le> i \<and> i < j' \<and> j' < length recs" by simp
      with Cons.prems(2) have "record_id (recs ! i) \<noteq> record_id (recs ! j')" by blast
      with rid show "record_id (recs ! j') \<noteq> Inr o1" by simp
    qed
    from register_results_keeps [OF 1 2] e show ?thesis by (simp only: step)
  next
    case False
    with Cons.prems(3) have j: "Suc i \<le> j" by simp
    have f: "fst (register_results s recs (Suc i) rs (register_new_id o1 n1 st)) = None"
      using Cons.prems(1) by (simp only: step)
    have d: "\<forall>j j'. Suc i \<le> j \<and> j < j' \<and> j' < length recs \<longrightarrow>
        record_id (recs ! j) \<noteq> record_id (recs ! j')"
      using Cons.prems(2) by auto
    have b: "j < Suc i + length rs" using Cons.prems(4) by simp
    have n: "SalesforceId_init (to_pyval (result_id (rs ! (j - Suc i)))) = Inr new_id"
    proof -
      from j have "j - i = Suc (j - Suc i)" by simp
      with Cons.prems(6) show ?thesis by simp
    qed
    from Cons.IH [OF f d j b Cons.prems(5) n] show ?thesis by (simp only: step)
  qed
qed

lemma LoadStep_execute_keeps:
  assumes "input_files ctx (sobjectname step) = Some reader"
    and "records_to_insert step lk ctx st reader = Inr recs"
    and "get_new_id st k = Some v"
    and "\<forall>r \<in> set recs. record_id r \<noteq> Inr k"
  shows "get_new_id (snd (LoadStep_execute step lk ctx st)) k = Some v"
proof -
  let ?st = "st\<lparr>calls := calls st @ [Insert (sobjectname step) recs]\<rparr>"
  have 1: "get_new_id ?st k = Some v" using assms(3) by (simp add: get_new_id_def)
  have 2: "\<forall>j. 0 \<le> j \<and> j < length recs \<longrightarrow> record_id (recs ! j) \<noteq> Inr k"
    using assms(4) by simp
  from register_results_keeps [OF 1 2] assms(1,2) show ?thesis
    by (simp add: LoadStep_execute_def)
qed

lemma execute_dependent_updates_map:
  "global_id_map (snd (execute_dependent_updates step lk ctx st)) = global_id_map st"
  by (auto simp: execute_dependent_updates_def split: option.splits sum.splits)

text \<open>
  C2, as the claim states it, fails when two inserted records carry the same old
  identifier: the input file holds the record of \<^verbatim>\<open>001000000000000\<close> twice, the store
  answers with two new identifiers, and the entry made for the first answer is replaced
  by the second.
\<close>

theorem translation_entry_overwritten:
  "get_new_id (snd (register_results ''Account'' [account_X, account_X] 0
        [\<lparr>success = True, result_id = Some ''001000000000002''\<rparr>] empty_load_state))
     (SalesforceId ''001000000000000AAA'') = Some (SalesforceId ''001000000000002AAA'')
   \<and> bulk_insert twice_operation [] ''Account'' [account_X, account_X]
      = [\<lparr>success = True, result_id = Some ''001000000000002''\<rparr>,
         \<lparr>success = True, result_id = Some ''001000000000003''\<rparr>]
   \<and> fst (LoadStep_execute load_account_step load_account_lookups twice_operation
        empty_load_state) = None
   \<and> calls (snd (LoadStep_execute load_account_step load_account_lookups twice_operation
        empty_load_state)) = [Insert ''Account'' [account_X, account_X]]
   \<and> get_new_id (snd (LoadStep_execute load_account_step load_account_lookups twice_operation
        empty_load_state))
     (SalesforceId ''001000000000000AAA'') = Some (SalesforceId ''001000000000003AAA'')"
  by code_simp

text \<open>
  C2, amended.  \<^verbatim>\<open>get_new_id\<close> returns the identifier registered last for an old
  identifier, and \<^verbatim>\<open>None\<close> for one that was never registered.  An entry of the
  translation table is left as it is by the rest of a step's result loop, and by a whole
  step, unless one of the records inserted there carries the same old identifier; the
  dependent updates never change the table.  When the records a step inserts carry
  pairwise different identifiers and its result loop ends without an exception, every
  record's identifier is mapped to the new identifier the store returned for that record.
\<close>

theorem translation_table_entries:
  "get_new_id (register_new_id old_id new_id st) old_id = Some new_id
   \<and> (k \<noteq> old_id \<longrightarrow> get_new_id (register_new_id old_id new_id st) k = get_new_id st k)
   \<and> get_new_id \<lparr>global_id_map = Map.empty, calls = cs\<rparr> k = None
   \<and> (get_new_id st k = Some v
        \<and> (\<forall>j. i \<le> j \<and> j < length recs \<longrightarrow> record_id (recs ! j) \<noteq> Inr k) \<longrightarrow>
      get_new_id (snd (register_results s recs i results st)) k = Some v)
   \<and> (input_files ctx (sobjectname step) = Some reader
        \<and> records_to_insert step lk ctx st reader = Inr recs
        \<and> get_new_id st k = Some v
        \<and> (\<forall>r \<in> set recs. record_id r \<noteq> Inr k) \<longrightarrow>
      get_new_id (snd (LoadStep_execute step lk ctx st)) k = Some v)
   \<and> global_id_map (snd (execute_dependent_updates step lk ctx st)) = global_id_map st
   \<and> (fst (register_results s recs 0 results st) = None
        \<and> distinct (map record_id recs)
        \<and> j < length results
        \<and> record_id (recs ! j) = Inr o_id
        \<and> SalesforceId_init (to_pyval (result_id (results ! j))) = Inr n_id \<longrightarrow>
      get_new_id (snd (register_results s recs 0 results st)) o_id = Some n_id)"
proof -
  have 3: "get_new_id \<lparr>global_id_map = Map.empty, calls = cs\<rparr> k = None"
    by (simp add: get_new_id_def)
  have 4: "get_new_id st k = Some v
        \<and> (\<forall>j. i \<le> j \<and> j < length recs \<longrightarrow> record_id (recs ! j) \<noteq> Inr k) \<longrightarrow>
      get_new_id (snd (register_results s recs i results st)) k = Some v"
    using register_results_keeps [of st k v i recs s results] by blast
  have 5: "input_files ctx (sobjectname step) = Some reader
        \<and> records_to_insert step lk ctx st reader = Inr recs
        \<and> get_new_id st k = Some v
        \<and> (\<forall>r \<in> set recs. record_id r \<noteq> Inr k) \<longrightarrow>
      get_new_id (snd (LoadStep_execute step lk ctx st)) k = Some v"
    using LoadStep_execute_keeps [of ctx step reader lk st recs k v] by blast
  have 7: "fst (register_results s recs 0 results st) = None
        \<and> distinct (map record_id recs)
        \<and> j < length results
        \<and> record_id (recs ! j) = Inr o_id
        \<and> SalesforceId_init (to_pyval (result_id (results ! j))) = Inr n_id \<longrightarrow>
      get_new_id (snd (register_results s recs 0 results st)) o_id = Some n_id"
  proof (intro impI, elim conjE)
    assume a: "fst (register_results s recs 0 results st) = None"
      "distinct (map record_id recs)" "j < length results"
      "record_id (recs ! j) = Inr o_id"
      "SalesforceId_init (to_pyval (result_id (results ! j))) = Inr n_id"
    have d: "\<forall>j j'. 0 \<le> j \<and> j < j' \<and> j' < length recs \<longrightarrow>
        record_id (recs ! j) \<noteq> record_id (recs ! j')"
    proof (intro allI impI)
      fix j j' assume h: "0 \<le> j \<and> j < j' \<and> j' < length recs"
      then have jl: "j < length (map record_id recs)" "j' < length (map record_id recs)"
        and ne: "j \<noteq> j'" by simp_all
      from nth_eq_iff_index_eq [OF a(2) jl] ne
      have "map record_id recs ! j \<noteq> map record_id recs ! j'" by simp
      with h show "record_id (recs ! j) \<noteq> record_id (recs ! j')" by simp
    qed
    from register_results_registered [OF a(1) d, of j o_id n_id] a(3,4,5)
    show "get_new_id (snd (register_results s recs 0 results st)) o_id = Some n_id" by simp
  qed
  from 3 4 5 7 execute_dependent_updates_map [of step lk ctx st] show ?thesis by simp
qed

theorem translation_table_entries_witness:
  "fst (register_results ''Account'' [account_X, account_Y] 0
          (accepting_store [] ''Account'' [account_X, account_Y]) empty_load_state) = None
   \<and> distinct (map record_id [account_X, account_Y])
   \<and> record_id ([account_X, account_Y] ! 1) = Inr (SalesforceId ''001000000000001AAA'')
   \<and> SalesforceId_init (to_pyval (result_id
        (accepting_store [] ''Account'' [account_X, account_Y] ! 1)))
      = Inr (SalesforceId ''001000000000003AAA'')
   \<and> get_new_id (snd (register_results ''Account'' [account_X, account_Y] 0
          (accepting_store [] ''Account'' [account_X, account_Y]) empty_load_state))
        (SalesforceId ''001000000000001AAA'') = Some (SalesforceId ''001000000000003AAA'')"
proof -
  have a: "fst (register_results ''Account'' [account_X, account_Y] 0
          (accepting_store [] ''Account'' [account_X, account_Y]) empty_load_state) = None"
    by code_simp
  have b: "distinct (map record_id [account_X, account_Y])" by code_simp
  have c: "record_id ([account_X, account_Y] ! 1) = Inr (SalesforceId ''001000000000001AAA'')"
    by code_simp
  have d: "SalesforceId_init (to_pyval (result_id
        (accepting_store [] ''Account'' [account_X, account_Y] ! 1)))
      = Inr (SalesforceId ''001000000000003AAA'')" by code_simp
  have e: "(1::nat) < length (accepting_store [] ''Account'' [account_X, account_Y])"
    by code_simp
  from translation_table_entries
    [of "SalesforceId ''001000000000001AAA''" "SalesforceId ''001000000000003AAA''"
        empty_load_state "SalesforceId ''001000000000001AAA''" "[]" "SalesforceId ''001000000000003AAA''"
        0 "[account_X, account_Y]" "''Account''"
        "accepting_store [] ''Account'' [account_X, account_Y]"
        circular_operation load_account_step "[]" load_account_lookups 1
        "SalesforceId ''001000000000001AAA''" "SalesforceId ''001000000000003AAA''"]
    a b c d e
  show ?thesis by simp
qed


text \<open>
  C1 fails on the code.  \<^verbatim>\<open>execute_dependent_updates\<close> raises before it builds or submits
  any update, for every step, whatever the input: KeyError without an input file,
  TypeError from adding two sets otherwise; the state is as it was.  For the load of the
  two accounts that refer to each other, the insert phase registers both new
  identifiers, the operation ends with that TypeError, and the only call the store has
  received is the insert.  Had \<^verbatim>\<open>all_lookups\<close> been the set of the self lookup, the
  records built for the update would hold the translated \<^verbatim>\<open>ParentId\<close> and no \<^verbatim>\<open>Id\<close>.
\<close>

theorem dependent_updates_raise_before_update:
  "(fst (execute_dependent_updates step lk ctx st) = Some KeyError
      \<or> fst (execute_dependent_updates step lk ctx st) = Some TypeError)
   \<and> snd (execute_dependent_updates step lk ctx st) = st
   \<and> fst (LoadOperation_execute circular_operation [load_account_step] empty_load_state)
      = Some TypeError
   \<and> calls (snd (LoadOperation_execute circular_operation [load_account_step] empty_load_state))
      = [Insert ''Account'' [account_X, account_Y]]
   \<and> get_new_id (snd (LoadOperation_execute circular_operation [load_account_step]
        empty_load_state)) (SalesforceId ''001000000000000AAA'')
      = Some (SalesforceId ''001000000000002AAA'')
   \<and> get_new_id (snd (LoadOperation_execute circular_operation [load_account_step]
        empty_load_state)) (SalesforceId ''001000000000001AAA'')
      = Some (SalesforceId ''001000000000003AAA'')
   \<and> records_to_update load_account_step
        (snd (LoadOperation_execute circular_operation [load_account_step] empty_load_state))
        [''ParentId''] [account_X, account_Y]
      = Inr [[(''ParentId'', Some ''001000000000003AAA'')],
             [(''ParentId'', Some ''001000000000002AAA'')]]"
proof -
  have g: "(fst (execute_dependent_updates step lk ctx st) = Some KeyError
      \<or> fst (execute_dependent_updates step lk ctx st) = Some TypeError)
   \<and> snd (execute_dependent_updates step lk ctx st) = st"
    by (cases "input_files ctx (sobjectname step)")
      (simp_all add: execute_dependent_updates_def set_plus_def)
  have c: "fst (LoadOperation_execute circular_operation [load_account_step] empty_load_state)
      = Some TypeError
   \<and> calls (snd (LoadOperation_execute circular_operation [load_account_step] empty_load_state))
      = [Insert ''Account'' [account_X, account_Y]]
   \<and> get_new_id (snd (LoadOperation_execute circular_operation [load_account_step]
        empty_load_state)) (SalesforceId ''001000000000000AAA'')
      = Some (SalesforceId ''001000000000002AAA'')
   \<and> get_new_id (snd (LoadOperation_execute circular_operation [load_account_step]
        empty_load_state)) (SalesforceId ''001000000000001AAA'')
      = Some (SalesforceId ''001000000000003AAA'')
   \<and> records_to_update load_account_step
        (snd (LoadOperation_execute circular_operation [load_account_step] empty_load_state))
        [''ParentId''] [account_X, account_Y]
      = Inr [[(''ParentId'', Some ''001000000000003AAA'')],
             [(''ParentId'', Some ''001000000000002AAA'')]]"
    by code_simp
  from g c show ?thesis by blast
qed

text \<open>
  C3 fails on the code.  The store rejects the first of two inserted records and accepts
  the second: \<^verbatim>\<open>LoadStep.execute\<close> raises at the first result, so the operation ends
  with that exception, the accepted second record gets no entry in the translation
  table, and the second step of the operation never runs (the store has received one
  insert).
\<close>

theorem insert_failure_is_fatal:
  "bulk_insert rejected_operation [] ''Account'' [account_X, account_Y]
     = [\<lparr>success = False, result_id = None\<rparr>,
        \<lparr>success = True, result_id = Some ''001000000000003''\<rparr>]
   \<and> fst (LoadOperation_execute rejected_operation [load_account_step, load_account_step]
        empty_load_state)
      = Some (Exception [''Failed to load {} {}'', ''Account'', ''001000000000000''])
   \<and> calls (snd (LoadOperation_execute rejected_operation [load_account_step, load_account_step]
        empty_load_state))
      = [Insert ''Account'' [account_X, account_Y]]
   \<and> get_new_id (snd (LoadOperation_execute rejected_operation
        [load_account_step, load_account_step] empty_load_state))
        (SalesforceId ''001000000000001AAA'') = None"
  by code_simp

end
